theory Spec2Isabelle
  imports Main
begin

section \<open>The environment set-up script (scripts/setup-env.js, here src/unnamed/part_002)\<close>

subsection \<open>Numbers\<close>

text \<open>
  A JavaScript number that holds a port is either \<open>NaN\<close> (what \<open>parseInt\<close> returns
  on text without digits) or an integer. Integers are kept exact: the model is the
  script on numbers of magnitude below \<open>2^53\<close>, where \<open>port++\<close> is exact in double
  precision; every TCP port number lies far inside this range.
\<close>

datatype jsnum = NaN | Num int

text \<open>\<open>port++\<close>: \<open>NaN + 1\<close> is \<open>NaN\<close>.\<close>

fun js_inc :: "jsnum \<Rightarrow> jsnum" where
  "js_inc NaN = NaN"
| "js_inc (Num n) = Num (n + 1)"

text \<open>Strict inequality \<open>a !== b\<close> on numbers: \<open>NaN\<close> differs from everything, itself included.\<close>

fun js_strict_neq :: "jsnum \<Rightarrow> jsnum \<Rightarrow> bool" where
  "js_strict_neq (Num a) (Num b) = (a \<noteq> b)"
| "js_strict_neq _ _ = True"

subsection \<open>The host: platform, port probes and the three files\<close>

datatype platform = Darwin | Linux | Win32 | OtherPlatform

text \<open>What the callback of \<open>exec(cmd, (error, stdout) => ...)\<close> receives.\<close>

record exec_result =
  exec_error :: bool
  exec_stdout :: string

text \<open>The three places of the file system the script touches.\<close>

datatype path = DataDir | EnvFile | WebEnvFile

text \<open>What a path holds: a directory, or a file with its content.\<close>

datatype node = Dir | File string

text \<open>
  The world the script runs in. The probes (\<open>lsof\<close>, \<open>netstat\<close>, a trial
  \<open>listen\<close>) answer for a port; the script itself binds no port, so their answers do
  not change while it runs. \<open>mkdir_fails\<close>, \<open>read_fails\<close> and \<open>write_fails\<close>
  say that the operation throws on a path (permissions, a missing parent directory);
  \<open>probes\<close> and \<open>written\<close> log the probes made and the files written, in order.
\<close>

record world =
  os_platform :: platform
  lsof_listen :: "jsnum \<Rightarrow> exec_result"
  netstat_findstr :: "jsnum \<Rightarrow> exec_result"
  listen_succeeds :: "jsnum \<Rightarrow> bool"
  rootDir :: string
  fs :: "path \<Rightarrow> node option"
  mkdir_fails :: "path \<Rightarrow> bool"
  read_fails :: "path \<Rightarrow> bool"
  write_fails :: "path \<Rightarrow> bool"
  probes :: "jsnum list"
  written :: "(path \<times> string) list"

text \<open>
  \<open>isPortAvailable(port)\<close>: on macOS and Linux the port is free when
  \<open>lsof -i :port -P -n | grep LISTEN\<close> fails or prints nothing, on Windows when
  \<open>netstat -ano | findstr :port\<close> does, elsewhere when a server can listen on it.
  The call is logged in \<open>probes\<close>. Elsewhere than on macOS, Linux and Windows the
  trial \<open>server.listen(port)\<close> throws a \<open>RangeError\<close> when \<open>port\<close> is not a
  TCP port number (0 to 65535), and the probe is rejected; \<open>listen_succeeds\<close>
  answers for TCP port numbers only, so on such a platform the definition is the
  script on probes of TCP port numbers.
\<close>

definition isPortAvailable :: "world \<Rightarrow> jsnum \<Rightarrow> bool \<times> world" where
  "isPortAvailable w port =
     (let w' = w\<lparr>probes := probes w @ [port]\<rparr> in
      case os_platform w of
        Darwin \<Rightarrow>
          (let r = lsof_listen w port in (exec_error r \<or> exec_stdout r = [], w'))
      | Linux \<Rightarrow>
          (let r = lsof_listen w port in (exec_error r \<or> exec_stdout r = [], w'))
      | Win32 \<Rightarrow>
          (let r = netstat_findstr w port in (exec_error r \<or> exec_stdout r = [], w'))
      | OtherPlatform \<Rightarrow> (listen_succeeds w port, w'))"

text \<open>The answer of a probe, without its log entry.\<close>

definition available :: "world \<Rightarrow> jsnum \<Rightarrow> bool" where
  "available w port = fst (isPortAvailable w port)"

text \<open>
  \<open>findAvailablePort(startPort)\<close>: \<open>while (!(await isPortAvailable(port))) port++\<close>.
  The loop has no upper bound, so the function is partial: \<open>None\<close> is the run that
  never returns.
\<close>

partial_function (option) findAvailablePort :: "jsnum \<Rightarrow> world \<Rightarrow> (jsnum \<times> world) option" where
  "findAvailablePort port w =
     (case isPortAvailable w port of
        (free, w') \<Rightarrow> if \<not> free then findAvailablePort (js_inc port) w' else Some (port, w'))"

declare findAvailablePort.simps [code]

text \<open>The world after the probes of the ports \<open>ps\<close>, in this order.\<close>

definition probed :: "world \<Rightarrow> jsnum list \<Rightarrow> world" where
  "probed w ps = w\<lparr>probes := probes w @ ps\<rparr>"

subsection \<open>Strings\<close>

text \<open>
  The string operations the script uses, on ASCII text. White space is what
  \<open>trim\<close> and \<open>parseInt\<close> skip: tab, line feed, vertical tab, form feed, carriage
  return and space. JavaScript skips the no-break space, the byte order mark and the
  other Unicode spaces too; they are not ASCII, and the definitions are the script's
  operations on ASCII text only (\<open>is_ascii\<close> below).
\<close>

definition is_space :: "char \<Rightarrow> bool" where
  "is_space c = (c \<in> set [CHR 0x09, CHR 0x0A, CHR 0x0B, CHR 0x0C, CHR 0x0D, CHR 0x20])"

definition trim :: "string \<Rightarrow> string" where
  "trim s = rev (dropWhile is_space (rev (dropWhile is_space s)))"

definition startsWith :: "string \<Rightarrow> string \<Rightarrow> bool" where
  "startsWith s pre = (take (length pre) s = pre)"

text \<open>\<open>s.split(c)\<close> for a one-character separator: the empty string gives one empty piece.\<close>

fun split_on :: "char \<Rightarrow> string \<Rightarrow> string list" where
  "split_on c [] = [[]]"
| "split_on c (x # xs) =
     (if x = c then [] # split_on c xs
      else (case split_on c xs of
              [] \<Rightarrow> [[x]]
            | y # ys \<Rightarrow> (x # y) # ys))"

text \<open>The value of a digit of \<open>parseInt\<close>: \<open>0-9\<close>, then \<open>a-z\<close> or \<open>A-Z\<close> from ten on.\<close>

definition digit_value :: "char \<Rightarrow> nat option" where
  "digit_value c =
     (let n = (of_char c :: nat) in
      if 48 \<le> n \<and> n \<le> 57 then Some (n - 48)
      else if 97 \<le> n \<and> n \<le> 122 then Some (n - 87)
      else if 65 \<le> n \<and> n \<le> 90 then Some (n - 55)
      else None)"

text \<open>
  \<open>parseInt(s, radix)\<close>, with \<open>None\<close> for a call without radix: leading white
  space and one sign are skipped; without radix (or with radix 16) a prefix \<open>0x\<close> or
  \<open>0X\<close> selects base 16; the longest run of digits of the base is read; no digit
  gives \<open>NaN\<close>. The value is exact; JavaScript rounds it to a double, which
  changes it only from magnitude \<open>2^53\<close> on.
\<close>

definition parseInt :: "string \<Rightarrow> nat option \<Rightarrow> jsnum" where
  "parseInt s radix =
     (let s1 = dropWhile is_space s;
          neg = (s1 \<noteq> [] \<and> hd s1 = CHR ''-'');
          s2 = (if s1 \<noteq> [] \<and> (hd s1 = CHR ''+'' \<or> hd s1 = CHR ''-'') then tl s1 else s1);
          r0 = (case radix of None \<Rightarrow> 0 | Some r \<Rightarrow> r)
      in if r0 \<noteq> 0 \<and> (r0 < 2 \<or> 36 < r0) then NaN
         else
           (let hex = ((r0 = 0 \<or> r0 = 16) \<and> (take 2 s2 = ''0x'' \<or> take 2 s2 = ''0X''));
                r = (if hex then 16 else if r0 = 0 then 10 else r0);
                s3 = (if hex then drop 2 s2 else s2);
                ds = takeWhile (\<lambda>c. case digit_value c of None \<Rightarrow> False | Some d \<Rightarrow> d < r) s3;
                m = foldl (\<lambda>a c. a * r + (case digit_value c of None \<Rightarrow> 0 | Some d \<Rightarrow> d)) 0 ds
            in if ds = [] then NaN
               else Num (if neg then - int m else int m)))"

text \<open>A number inside a template string: \<open>`${port}`\<close>.\<close>

fun show_nat :: "nat \<Rightarrow> string" where
  "show_nat n =
     (if n < 10 then [char_of (48 + n)]
      else show_nat (n div 10) @ [char_of (48 + n mod 10)])"

declare show_nat.simps [simp del]

fun show_jsnum :: "jsnum \<Rightarrow> string" where
  "show_jsnum NaN = ''NaN''"
| "show_jsnum (Num n) = (if n < 0 then CHR ''-'' # show_nat (nat (- n)) else show_nat (nat n))"

text \<open>A string or \<open>undefined\<close> where a string is expected, and where a condition is.\<close>

fun js_to_string :: "string option \<Rightarrow> string" where
  "js_to_string None = ''undefined''"
| "js_to_string (Some s) = s"

fun js_truthy :: "string option \<Rightarrow> bool" where
  "js_truthy None = False"
| "js_truthy (Some s) = (s \<noteq> [])"

subsection \<open>The file system\<close>

datatype fs_error = FsError

definition existsSync :: "world \<Rightarrow> path \<Rightarrow> bool" where
  "existsSync w p = (fs w p \<noteq> None)"

text \<open>\<open>fs.mkdirSync(p, { recursive: true })\<close>\<close>

definition mkdirSync :: "world \<Rightarrow> path \<Rightarrow> fs_error + world" where
  "mkdirSync w p =
     (if mkdir_fails w p then Inl FsError
      else case fs w p of
             Some (File c) \<Rightarrow> Inl FsError
           | _ \<Rightarrow> Inr (w\<lparr>fs := (fs w)(p \<mapsto> Dir)\<rparr>))"

text \<open>\<open>fs.readFileSync(p, 'utf8')\<close>\<close>

definition readFileSync :: "world \<Rightarrow> path \<Rightarrow> fs_error + string" where
  "readFileSync w p =
     (case fs w p of
        Some (File c) \<Rightarrow> if read_fails w p then Inl FsError else Inr c
      | _ \<Rightarrow> Inl FsError)"

text \<open>\<open>fs.writeFileSync(p, content)\<close>\<close>

definition writeFileSync :: "world \<Rightarrow> path \<Rightarrow> string \<Rightarrow> fs_error + world" where
  "writeFileSync w p content =
     (if write_fails w p \<or> fs w p = Some Dir then Inl FsError
      else Inr (w\<lparr>fs := (fs w)(p \<mapsto> File content), written := written w @ [(p, content)]\<rparr>))"

subsection \<open>setupEnvironment\<close>

definition DEFAULT_API_PORT :: jsnum where
  "DEFAULT_API_PORT = Num 8080"

definition DEFAULT_WEB_PORT :: jsnum where
  "DEFAULT_WEB_PORT = Num 3000"

text \<open>
  The body of \<open>envContent.split('\n').forEach(line => ...)\<close>: a line that is not empty
  and does not start with \<open>#\<close> is split at \<open>=\<close>; when its first two pieces are
  both non-empty the trimmed key is bound to the trimmed value.
\<close>

definition parseEnvLine :: "(string \<rightharpoonup> string) \<Rightarrow> string \<Rightarrow> (string \<rightharpoonup> string)" where
  "parseEnvLine env line =
     (if line \<noteq> [] \<and> \<not> startsWith line ''#'' then
        (case split_on CHR ''='' line of
           key # val # _ \<Rightarrow>
             if key \<noteq> [] \<and> val \<noteq> [] then env(trim key \<mapsto> trim val) else env
         | _ \<Rightarrow> env)
      else env)"

definition parseEnv :: "string \<Rightarrow> (string \<rightharpoonup> string)" where
  "parseEnv envContent = foldl parseEnvLine Map.empty (split_on (CHR 0x0A) envContent)"

text \<open>
  \<open>existingEnv\<close> after the block \<open>if (fs.existsSync(envFile)) { ... }\<close>: the empty
  object when the file is absent; reading may throw.
\<close>

definition readExistingEnv :: "world \<Rightarrow> fs_error + (string \<rightharpoonup> string)" where
  "readExistingEnv w =
     (if existsSync w EnvFile then
        (case readFileSync w EnvFile of
           Inl e \<Rightarrow> Inl e
         | Inr envContent \<Rightarrow> Inr (parseEnv envContent))
      else Inr Map.empty)"

text \<open>
  The port the search starts from: \<open>let apiPort = DEFAULT_API_PORT\<close>, replaced by
  \<open>parseInt(existingEnv.API_PORT, 10)\<close> when \<open>existingEnv.API_PORT\<close> is truthy
  (and likewise for the web port).
\<close>

definition startPort :: "(string \<rightharpoonup> string) \<Rightarrow> string \<Rightarrow> jsnum \<Rightarrow> jsnum" where
  "startPort existingEnv key dflt =
     (if js_truthy (existingEnv key) then parseInt (js_to_string (existingEnv key)) (Some 10)
      else dflt)"

text \<open>
  \<open>if (!await isPortAvailable(port)) { port = await findAvailablePort(port) }\<close>,
  written once for the API port and once for the web port.
\<close>

definition choosePort :: "jsnum \<Rightarrow> world \<Rightarrow> (jsnum \<times> world) option" where
  "choosePort port w =
     (case isPortAvailable w port of
        (free, w') \<Rightarrow> if \<not> free then findAvailablePort port w' else Some (port, w'))"

text \<open>The condition under which \<open>.env\<close> is written.\<close>

definition envNeedsUpdate :: "world \<Rightarrow> (string \<rightharpoonup> string) \<Rightarrow> jsnum \<Rightarrow> jsnum \<Rightarrow> bool" where
  "envNeedsUpdate w existingEnv apiPort webPort =
     (\<not> existsSync w EnvFile \<or>
      js_strict_neq (parseInt (js_to_string (existingEnv ''API_PORT'')) None) apiPort \<or>
      js_strict_neq (parseInt (js_to_string (existingEnv ''WEB_PORT'')) None) webPort)"

definition newline :: string where
  "newline = [CHR 0x0A]"

text \<open>\<open>path.join(rootDir, 'data', 'cc.db')\<close> is \<open>rootDir/data/cc.db\<close>.\<close>

definition envContent :: "string \<Rightarrow> jsnum \<Rightarrow> jsnum \<Rightarrow> string" where
  "envContent root apiPort webPort =
     ''# Auto-generated environment configuration'' @ newline @
     ''API_PORT='' @ show_jsnum apiPort @ newline @
     ''WEB_PORT='' @ show_jsnum webPort @ newline @
     ''DATABASE_URL=sqlite:///'' @ root @ ''/data/cc.db'' @ newline"

definition webEnvContent :: "jsnum \<Rightarrow> string" where
  "webEnvContent apiPort =
     ''# Auto-generated environment configuration'' @ newline @
     ''NEXT_PUBLIC_API_BASE=http://localhost:'' @ show_jsnum apiPort @ newline @
     ''NEXT_PUBLIC_WS_BASE=ws://localhost:'' @ show_jsnum apiPort @ newline"

record ports =
  apiPort :: jsnum
  webPort :: jsnum

text \<open>
  How a run ends: it returns the two ports, or an exception reaches the \<open>catch\<close>
  block and the process exits with status 1.
\<close>

datatype outcome = Returned ports | Exited int

text \<open>
  \<open>setupEnvironment()\<close>. \<open>None\<close> is the run in which a port search never returns.
\<close>

definition setupEnvironment :: "world \<Rightarrow> (outcome \<times> world) option" where
  "setupEnvironment w0 =
     (case (if \<not> existsSync w0 DataDir then mkdirSync w0 DataDir else Inr w0) of
        Inl e \<Rightarrow> Some (Exited 1, w0)
      | Inr w1 \<Rightarrow>
     (case readExistingEnv w1 of
        Inl e \<Rightarrow> Some (Exited 1, w1)
      | Inr existingEnv \<Rightarrow>
     (case choosePort (startPort existingEnv ''API_PORT'' DEFAULT_API_PORT) w1 of
        None \<Rightarrow> None
      | Some (api, w2) \<Rightarrow>
     (case choosePort (startPort existingEnv ''WEB_PORT'' DEFAULT_WEB_PORT) w2 of
        None \<Rightarrow> None
      | Some (web, w3) \<Rightarrow>
     (case (if envNeedsUpdate w3 existingEnv api web
            then writeFileSync w3 EnvFile (envContent (rootDir w3) api web)
            else Inr w3) of
        Inl e \<Rightarrow> Some (Exited 1, w3)
      | Inr w4 \<Rightarrow>
     (case writeFileSync w4 WebEnvFile (webEnvContent api) of
        Inl e \<Rightarrow> Some (Exited 1, w4)
      | Inr w5 \<Rightarrow> Some (Returned \<lparr>apiPort = api, webPort = web\<rparr>, w5)))))))"

subsection \<open>What a port search leaves behind\<close>

text \<open>
  \<open>scan_result port w res\<close>: \<open>res\<close> is a port and a world that a search started at
  \<open>port\<close> in \<open>w\<close> may return: the probes begin at \<open>port\<close> and end at the port
  returned, that port is free, and no port from the start up to it is.
\<close>

definition scan_result :: "jsnum \<Rightarrow> world \<Rightarrow> jsnum \<times> world \<Rightarrow> bool" where
  "scan_result port w res =
     ((\<exists>ps. snd res = probed w (port # ps) \<and> last (port # ps) = fst res) \<and>
      available w (fst res) \<and>
      (port = NaN \<longrightarrow> fst res = NaN) \<and>
      (\<forall>p. port = Num p \<longrightarrow>
         (\<exists>r. p \<le> r \<and> fst res = Num r \<and> (\<forall>k. p \<le> k \<and> k < r \<longrightarrow> \<not> available w (Num k)))))"

subsection \<open>Plain text and port numbers\<close>



subsection \<open>Example hosts\<close>

text \<open>
  A Linux host on which \<open>lsof\<close> finds a listener exactly on the ports in \<open>busy\<close>,
  with an existing data directory, the given \<open>.env\<close> (if any), no \<open>.env.local\<close>
  and no failing file operation.
\<close>

definition linux_world :: "int set \<Rightarrow> string option \<Rightarrow> world" where
  "linux_world busy env =
     \<lparr>os_platform = Linux,
      lsof_listen =
        (\<lambda>port. case port of
            NaN \<Rightarrow> \<lparr>exec_error = True, exec_stdout = []\<rparr>
          | Num n \<Rightarrow>
              if n \<in> busy
              then \<lparr>exec_error = False, exec_stdout = ''node 4242 user 21u IPv4 TCP *:* (LISTEN)''\<rparr>
              else \<lparr>exec_error = True, exec_stdout = []\<rparr>),
      netstat_findstr = (\<lambda>port. \<lparr>exec_error = True, exec_stdout = []\<rparr>),
      listen_succeeds = (\<lambda>port. True),
      rootDir = ''/app'',
      fs = (\<lambda>p. case p of DataDir \<Rightarrow> Some Dir | EnvFile \<Rightarrow> map_option File env | WebEnvFile \<Rightarrow> None),
      mkdir_fails = (\<lambda>p. False),
      read_fails = (\<lambda>p. False),
      write_fails = (\<lambda>p. False),
      probes = [],
      written = []\<rparr>"

text \<open>
  Three \<open>.env\<close> files: one records both ports, one the API port only, and one has
  an \<open>API_PORT\<close> line whose value is a single space.
\<close>

definition env_two_ports :: string where
  "env_two_ports = ''API_PORT=8081'' @ newline @ ''WEB_PORT=3001'' @ newline"

definition env_api_3000 :: string where
  "env_api_3000 = ''API_PORT=3000'' @ newline"


section \<open>The project state machine\<close>

text \<open>
  The Project State Machine (its states, its transitions and the sessions it tracks) is
  described in the specification only; no source file implements it. Every definition
  of this section is written from the specification's words.
\<close>

text \<open>
  Modelled from the spec: the lifecycle status of a project, one of \<open>Initializing\<close>,
  \<open>Active\<close>, \<open>Generating\<close>, \<open>Error\<close> and \<open>Terminated\<close> (the state machine
  itself is missing from the sources).
\<close>

datatype status = Initializing | Active | Generating | Error | Terminated

text \<open>
  Modelled from the spec: what can be asked of a project: the end of its
  initialisation, a user prompt, the \<open>SessionEnded\<close> event of its agent session (with
  success or failure), an explicit cancel, a retry after a failure, and the explicit
  close.
\<close>

datatype command = Initialized | Prompt | SessionEnded bool | Cancel | Retry | Close

text \<open>Modelled from the spec: the error of an invalid transition attempt.\<close>

datatype transition_error = InvalidTransition

text \<open>
  Modelled from the spec: the transitions \<open>Initializing \<rightarrow> Active \<rightarrow> Generating \<rightleftharpoons> Active
  \<rightarrow> Error \<rightarrow> (Active | Terminated)\<close>. \<open>Active\<close> accepts a prompt; only
  \<open>SessionEnded\<close> or a cancel leaves \<open>Generating\<close>, and a failed generation leads to
  \<open>Error\<close>; from \<open>Error\<close> the user may retry or close; \<open>Terminated\<close> accepts
  nothing. Every other attempt is invalid.
\<close>

fun next_status :: "status \<Rightarrow> command \<Rightarrow> status option" where
  "next_status Initializing Initialized = Some Active"
| "next_status Active Prompt = Some Generating"
| "next_status Generating (SessionEnded True) = Some Active"
| "next_status Generating (SessionEnded False) = Some Error"
| "next_status Generating Cancel = Some Active"
| "next_status Error Retry = Some Active"
| "next_status Error Close = Some Terminated"
| "next_status _ _ = None"

text \<open>
  Modelled from the spec: a Session has an identifier, an owning project and a
  termination reason, absent while the session is running. (The backend kind, the
  process handle and the start timestamp play no part in the transitions and are left
  out.)
\<close>

record session =
  session_id :: nat
  owner :: nat
  termination_reason :: "string option"

text \<open>
  Modelled from the spec: a Project has a lifecycle status and the identifier of its
  active session, if any. (The working directory and the preview port are left out.)
\<close>

record project =
  status :: status
  active_session :: "nat option"

text \<open>
  Modelled from the spec: the state the machine works on, the projects by their
  identifiers and all sessions started so far.
\<close>

record machine =
  projects :: "nat \<Rightarrow> project"
  sessions :: "session list"

text \<open>Modelled from the spec: at the start every project is \<open>Initializing\<close>, with no session yet.\<close>

definition initial_machine :: machine where
  "initial_machine =
     \<lparr>projects = (\<lambda>pid. \<lparr>status = Initializing, active_session = None\<rparr>), sessions = []\<rparr>"

text \<open>
  Modelled from the spec: a session that has ended is terminal and immutable, so ending
  the session \<open>sid\<close> records the reason only while it has none.
\<close>

definition end_session :: "nat \<Rightarrow> string \<Rightarrow> session list \<Rightarrow> session list" where
  "end_session sid reason ss =
     map (\<lambda>s. if session_id s = sid \<and> termination_reason s = None
              then s\<lparr>termination_reason := Some reason\<rparr> else s) ss"

text \<open>Modelled from the spec: ending the active session of a project, if it has one.\<close>

definition end_active :: "project \<Rightarrow> string \<Rightarrow> session list \<Rightarrow> session list" where
  "end_active p reason ss =
     (case active_session p of None \<Rightarrow> ss | Some sid \<Rightarrow> end_session sid reason ss)"

text \<open>
  Modelled from the spec: an attempt is validated first; an invalid one fails with
  \<open>InvalidTransition\<close> and the machine is returned as it was. A prompt spawns a new
  session and makes it the active one; \<open>SessionEnded\<close> and cancel end the active
  session; the other transitions change the status only.
\<close>

definition apply_command :: "nat \<Rightarrow> command \<Rightarrow> machine \<Rightarrow> transition_error option \<times> machine" where
  "apply_command pid cmd m =
     (let p = projects m pid in
      case next_status (status p) cmd of
        None \<Rightarrow> (Some InvalidTransition, m)
      | Some st \<Rightarrow>
          (None,
           case cmd of
             Prompt \<Rightarrow>
               (let sid = length (sessions m) in
                m\<lparr>projects := (projects m)(pid := \<lparr>status = st, active_session = Some sid\<rparr>),
                  sessions := sessions m @
                    [\<lparr>session_id = sid, owner = pid, termination_reason = None\<rparr>]\<rparr>)
           | SessionEnded ok \<Rightarrow>
               m\<lparr>projects := (projects m)(pid := \<lparr>status = st, active_session = None\<rparr>),
                 sessions := end_active p (if ok then ''success'' else ''failure'') (sessions m)\<rparr>
           | Cancel \<Rightarrow>
               m\<lparr>projects := (projects m)(pid := \<lparr>status = st, active_session = None\<rparr>),
                 sessions := end_active p ''cancelled'' (sessions m)\<rparr>
           | _ \<Rightarrow> m\<lparr>projects := (projects m)(pid := p\<lparr>status := st\<rparr>)\<rparr>))"

text \<open>
  Modelled from the spec: the reachable states of the system, as the machine after a
  series of attempts, valid or not, each on some project.
\<close>

definition run_machine :: "(nat \<times> command) list \<Rightarrow> machine" where
  "run_machine attempts =
     foldl (\<lambda>m (pid, cmd). snd (apply_command pid cmd m)) initial_machine attempts"

text \<open>Modelled from the spec: the non-terminal sessions of a project, those that have not ended.\<close>

definition live_sessions :: "machine \<Rightarrow> nat \<Rightarrow> session list" where
  "live_sessions m pid =
     filter (\<lambda>s. owner s = pid \<and> termination_reason s = None) (sessions m)"

text \<open>
  Modelled from the spec: what holds of every reachable machine. Session identifiers
  are positions in the session list, and a project has a running session exactly while
  it is \<open>Generating\<close>, namely its active session.
\<close>

definition machine_inv :: "machine \<Rightarrow> bool" where
  "machine_inv m =
     (map session_id (sessions m) = [0..<length (sessions m)] \<and>
      (\<forall>pid. if status (projects m pid) = Generating
             then (\<exists>sid. active_session (projects m pid) = Some sid \<and>
                    live_sessions m pid =
                      [\<lparr>session_id = sid, owner = pid, termination_reason = None\<rparr>])
             else live_sessions m pid = []))"

section \<open>The Orchestrator's restart policy\<close>

text \<open>
  The Orchestrator's handling of a crashed agent process (the automatic re-spawn and
  the cooldown window) is described in the specification only. No source file
  implements it: the one \<open>exit\<close> handler among the sources, in
  \<open>apps/web/scripts/dev.js\<close>, belongs to the wrapper of the Next.js dev server, which
  ends with the code of its child and knows no session, no project and no restart.
  Every definition of this section is written from the specification's words.
\<close>















section \<open>The session relay\<close>

text \<open>
  The Session Relay (publish, subscribe with replay, the bounded ring buffer and the
  bounded per-subscriber queues) is described in the specification only; no source file
  implements it. Every definition of this section is written from the specification's
  words.
\<close>

text \<open>
  Modelled from the spec: a StructuredEvent carries its project identifier, its
  sequence number and a payload. (The variant tag, the session identifier and the
  timestamp play no part in sequencing and are folded into the payload.)
\<close>

record event =
  project_id :: nat
  seq :: nat
  payload :: string

text \<open>
  Modelled from the spec: a subscription belongs to one project; it holds the bounded
  outbound queue and, for the statement of what the subscriber observes, the events the
  client has already taken from the queue.
\<close>

record subscription =
  sub_project :: nat
  taken :: "event list"
  queue :: "event list"

text \<open>
  Modelled from the spec: the relay keeps, per project, the last sequence number it
  assigned and a ring buffer of the most recent \<open>retain\<close> events, and the current
  subscriptions, each with a queue of at most \<open>capacity\<close> events. \<open>emitted\<close>
  records every event ever published for a project, in order; the relay does not read
  it.
\<close>

record relay =
  retain :: nat
  capacity :: nat
  last_seq :: "nat \<Rightarrow> nat"
  ring :: "nat \<Rightarrow> event list"
  subscriptions :: "nat \<Rightarrow> subscription option"
  emitted :: "nat \<Rightarrow> event list"

text \<open>
  Modelled from the spec: a relay that has published nothing and has no subscriber;
  the first sequence number it will assign is 1.
\<close>

definition new_relay :: "nat \<Rightarrow> nat \<Rightarrow> relay" where
  "new_relay n c =
     \<lparr>retain = n, capacity = c, last_seq = (\<lambda>pid. 0), ring = (\<lambda>pid. []),
      subscriptions = (\<lambda>sid. None), emitted = (\<lambda>pid. [])\<rparr>"

text \<open>Modelled from the spec: the ring buffer holds the most recent \<open>n\<close> events of a list.\<close>

definition keep_last :: "nat \<Rightarrow> 'a list \<Rightarrow> 'a list" where
  "keep_last n xs = drop (length xs - n) xs"

text \<open>
  Modelled from the spec: delivery to one subscriber does not block: the event joins
  the queue while there is room; a subscriber of the project whose queue is full is
  disconnected; subscribers of other projects are not concerned.
\<close>

definition deliver_to :: "nat \<Rightarrow> event \<Rightarrow> subscription \<Rightarrow> subscription option" where
  "deliver_to cap e s =
     (if sub_project s \<noteq> project_id e then Some s
      else if length (queue s) < cap then Some (s\<lparr>queue := queue s @ [e]\<rparr>)
      else None)"

text \<open>
  Modelled from the spec: \<open>publish\<close> assigns the next sequence number of the project
  to the event, stores it in the ring buffer and delivers it to every current subscriber.
\<close>

definition publish :: "nat \<Rightarrow> string \<Rightarrow> relay \<Rightarrow> relay" where
  "publish pid content r =
     (let e = \<lparr>project_id = pid, seq = Suc (last_seq r pid), payload = content\<rparr> in
      r\<lparr>last_seq := (last_seq r)(pid := seq e),
        ring := (ring r)(pid := keep_last (retain r) (ring r pid @ [e])),
        subscriptions :=
          (\<lambda>sid. case subscriptions r sid of
                    None \<Rightarrow> None
                  | Some s \<Rightarrow> deliver_to (capacity r) e s),
        emitted := (emitted r)(pid := emitted r pid @ [e])\<rparr>)"

text \<open>
  Modelled from the spec: what \<open>subscribe\<close> answers: a subscription, or the signal to
  resynchronize from a full-state snapshot.
\<close>

datatype subscribe_result = Subscribed | Resynchronize

text \<open>
  Modelled from the spec: \<open>subscribe(projectId, fromSequence)\<close> replays the buffered
  events after \<open>fromSequence\<close> and then continues live. When events after
  \<open>fromSequence\<close> have left the ring buffer the client is told to resynchronize and
  no subscription is made.
\<close>

definition subscribe :: "nat \<Rightarrow> nat \<Rightarrow> nat \<Rightarrow> relay \<Rightarrow> subscribe_result \<times> relay" where
  "subscribe sid pid fromSequence r =
     (if fromSequence + length (ring r pid) < last_seq r pid then (Resynchronize, r)
      else
        (Subscribed,
         r\<lparr>subscriptions := (subscriptions r)
             (sid \<mapsto> \<lparr>sub_project = pid, taken = [],
                       queue = filter (\<lambda>e. fromSequence < seq e) (ring r pid)\<rparr>)\<rparr>))"

text \<open>Modelled from the spec: \<open>unsubscribe\<close> ends a subscription.\<close>

definition unsubscribe :: "nat \<Rightarrow> relay \<Rightarrow> relay" where
  "unsubscribe sid r = r\<lparr>subscriptions := (subscriptions r)(sid := None)\<rparr>"

text \<open>
  Modelled from the spec: the client of a subscription pulls the next event of the
  lazy sequence, that is, takes it from its queue.
\<close>

definition take_next :: "nat \<Rightarrow> relay \<Rightarrow> relay" where
  "take_next sid r =
     (case subscriptions r sid of
        None \<Rightarrow> r
      | Some s \<Rightarrow>
          (case queue s of
             [] \<Rightarrow> r
           | e # es \<Rightarrow>
               r\<lparr>subscriptions := (subscriptions r)(sid \<mapsto> s\<lparr>taken := taken s @ [e], queue := es\<rparr>)\<rparr>))"

text \<open>Modelled from the spec: the operations of the relay, as data.\<close>

datatype relay_op =
  Publish nat string | Subscribe nat nat nat | Unsubscribe nat | TakeNext nat

text \<open>Modelled from the spec: one operation applied to the relay.\<close>

fun relay_step :: "relay \<Rightarrow> relay_op \<Rightarrow> relay" where
  "relay_step r (Publish pid content) = publish pid content r"
| "relay_step r (Subscribe sid pid fromSequence) = snd (subscribe sid pid fromSequence r)"
| "relay_step r (Unsubscribe sid) = unsubscribe sid r"
| "relay_step r (TakeNext sid) = take_next sid r"

text \<open>
  Modelled from the spec: the relay with ring size \<open>n\<close> and queue capacity \<open>c\<close> after a
  series of operations.
\<close>

definition run_relay :: "nat \<Rightarrow> nat \<Rightarrow> relay_op list \<Rightarrow> relay" where
  "run_relay n c ops = foldl relay_step (new_relay n c) ops"

text \<open>
  Modelled from the spec: what a subscriber has observed since it subscribed: the
  events taken, then those queued.
\<close>

definition observed :: "subscription \<Rightarrow> event list" where
  "observed s = taken s @ queue s"

text \<open>
  Modelled from the spec: what holds of every relay that operations lead to. The events
  published for a project are numbered 1, 2, 3, ... in order, the ring buffer holds the
  most recent of them, and what a subscriber has observed is a final segment of the
  events published for its project.
\<close>

definition relay_inv :: "relay \<Rightarrow> bool" where
  "relay_inv r =
     ((\<forall>pid. map seq (emitted r pid) = [1..<Suc (last_seq r pid)] \<and>
             ring r pid = keep_last (retain r) (emitted r pid) \<and>
             (\<forall>e \<in> set (emitted r pid). project_id e = pid)) \<and>
      (\<forall>sid s. subscriptions r sid = Some s \<longrightarrow>
         (\<exists>k. k \<le> length (emitted r (sub_project s)) \<and>
              observed s = drop k (emitted r (sub_project s)))))"

section \<open>Properties of the set-up script\<close>

subsection \<open>Port probes\<close>

lemma isPortAvailable_world: "snd (isPortAvailable w port) = probed w [port]"
  by (simp add: isPortAvailable_def probed_def Let_def split: platform.split)

lemma isPortAvailable_eq: "isPortAvailable w port = (available w port, probed w [port])"
  by (simp add: available_def isPortAvailable_world [symmetric])

lemma available_probed: "available (probed w ps) port = available w port"
  by (simp add: available_def isPortAvailable_def probed_def Let_def split: platform.split)

lemma probed_probed: "probed (probed w ps) qs = probed w (ps @ qs)"
  by (simp add: probed_def)

lemma probed_Nil: "probed w [] = w"
  by (simp add: probed_def)

lemma findAvailablePort_free:
  "available w port \<Longrightarrow> findAvailablePort port w = Some (port, probed w [port])"
  by (subst findAvailablePort.simps) (simp add: isPortAvailable_eq)

lemma findAvailablePort_busy:
  "\<not> available w port \<Longrightarrow>
   findAvailablePort port w = findAvailablePort (js_inc port) (probed w [port])"
  by (subst findAvailablePort.simps) (simp add: isPortAvailable_eq)

lemma probed_fields:
  "fs (probed w ps) = fs w" "rootDir (probed w ps) = rootDir w"
  "write_fails (probed w ps) = write_fails w" "read_fails (probed w ps) = read_fails w"
  "mkdir_fails (probed w ps) = mkdir_fails w" "written (probed w ps) = written w"
  "probes (probed w ps) = probes w @ ps"
  by (simp_all add: probed_def)

lemma findAvailablePort_scan:
  "nat (q - p) = n \<Longrightarrow> p \<le> q \<Longrightarrow> available w (Num q) \<Longrightarrow>
   \<exists>r. p \<le> r \<and> r \<le> q \<and> available w (Num r) \<and>
       (\<forall>k. p \<le> k \<and> k < r \<longrightarrow> \<not> available w (Num k)) \<and>
       findAvailablePort (Num p) w = Some (Num r, probed w (map Num [p..r]))"
proof (induction n arbitrary: p w)
  case 0
  then have "p = q" by simp
  with 0 show ?case
    by (intro exI [of _ q]) (auto simp: findAvailablePort_free)
next
  case (Suc n)
  show ?case
  proof (cases "available w (Num p)")
    case True
    then show ?thesis
      using Suc.prems by (intro exI [of _ p]) (auto simp: findAvailablePort_free)
  next
    case False
    from Suc.prems have lt: "p + 1 \<le> q" and n: "nat (q - (p + 1)) = n" by simp_all
    have "available (probed w [Num p]) (Num q)"
      using Suc.prems by (simp add: available_probed)
    from Suc.IH [OF n lt this] obtain r where r: "p + 1 \<le> r" "r \<le> q"
      "available w (Num r)"
      "\<forall>k. p + 1 \<le> k \<and> k < r \<longrightarrow> \<not> available w (Num k)"
      "findAvailablePort (Num (p + 1)) (probed w [Num p]) =
         Some (Num r, probed (probed w [Num p]) (map Num [p + 1..r]))"
      by (auto simp: available_probed)
    have low: "\<forall>k. p \<le> k \<and> k < r \<longrightarrow> \<not> available w (Num k)"
    proof (intro allI impI)
      fix k assume k: "p \<le> k \<and> k < r"
      show "\<not> available w (Num k)"
      proof (cases "k = p")
        case True with False show ?thesis by simp
      next
        case False with k r(4) show ?thesis by simp
      qed
    qed
    have "[p..r] = p # [p + 1..r]" using r(1) by (simp add: upto_rec1)
    then have "findAvailablePort (Num p) w = Some (Num r, probed w (map Num [p..r]))"
      using False r(5) by (simp add: findAvailablePort_busy probed_probed)
    with r low show ?thesis by (intro exI [of _ r]) simp
  qed
qed

lemma scan_result_free:
  "available w port \<Longrightarrow> scan_result port w (port, probed w [port])"
  by (cases port) (auto simp: scan_result_def)

lemma scan_result_busy:
  assumes busy: "\<not> available w port"
    and rest: "scan_result (js_inc port) (probed w [port]) res"
  shows "scan_result port w res"
proof -
  from rest obtain ps where ps: "snd res = probed w (port # js_inc port # ps)"
    "last (js_inc port # ps) = fst res"
    by (auto simp: scan_result_def probed_probed)
  have trace: "\<exists>qs. snd res = probed w (port # qs) \<and> last (port # qs) = fst res"
    using ps by (intro exI [of _ "js_inc port # ps"]) simp
  have free: "available w (fst res)"
    using rest by (simp add: scan_result_def available_probed)
  show ?thesis
  proof (cases port)
    case NaN
    with rest trace free show ?thesis by (simp add: scan_result_def)
  next
    case (Num p)
    with rest obtain r where r: "p + 1 \<le> r" "fst res = Num r"
      "\<forall>k. p + 1 \<le> k \<and> k < r \<longrightarrow> \<not> available w (Num k)"
      by (auto simp: scan_result_def available_probed)
    have "\<not> available w (Num k)" if "p \<le> k \<and> k < r" for k
    proof (cases "k = p")
      case True with busy Num show ?thesis by simp
    next
      case False with that r(3) show ?thesis by simp
    qed
    with r(1,2) have "\<exists>r. p \<le> r \<and> fst res = Num r \<and>
        (\<forall>k. p \<le> k \<and> k < r \<longrightarrow> \<not> available w (Num k))"
      by (intro exI [of _ r]) simp
    with Num trace free show ?thesis by (simp add: scan_result_def)
  qed
qed

lemma findAvailablePort_Some:
  assumes "findAvailablePort port w = Some res"
  shows "scan_result port w res"
proof (rule findAvailablePort.raw_induct [where P = scan_result, OF _ assms])
  fix find port w res
  assume IH: "\<And>port w res. find port w = Some res \<Longrightarrow> scan_result port w res"
    and body: "(case isPortAvailable w port of
        (free, w') \<Rightarrow> if \<not> free then find (js_inc port) w' else Some (port, w')) = Some res"
  show "scan_result port w res"
  proof (cases "available w port")
    case True
    with body have "res = (port, probed w [port])"
      by (simp add: isPortAvailable_eq)
    with True show ?thesis by (simp add: scan_result_free)
  next
    case False
    with body have "find (js_inc port) (probed w [port]) = Some res"
      by (simp add: isPortAvailable_eq)
    from scan_result_busy [OF False IH [OF this]] show ?thesis .
  qed
qed

lemma choosePort_eq:
  "choosePort port w =
     (if available w port then Some (port, probed w [port])
      else findAvailablePort port (probed w [port]))"
  by (simp add: choosePort_def isPortAvailable_eq)

lemma available_linux_world:
  "available (linux_world busy env) (Num n) = (n \<notin> busy)"
  by (simp add: available_def isPortAvailable_def linux_world_def Let_def)

subsection \<open>The port search\<close>



text \<open>
  Claim C2 says that the search fails with a \<open>PortExhausted\<close> error when no port of
  the configured range is free. The script has neither a range nor such an error:
  with every port from 3000 to 3009 in use the search goes on and returns 3010.
\<close>

theorem findAvailablePort_past_range_counterexample:
  "map_option fst (findAvailablePort (Num 3000) (linux_world {3000..3009} None))
     = Some (Num 3010)"
proof -
  let ?w = "linux_world {3000..3009} None"
  have "available ?w (Num 3010)" by (simp add: available_linux_world)
  from findAvailablePort_scan [OF refl _ this, of 3000]
  obtain r where r: "findAvailablePort (Num 3000) ?w = Some (Num r, probed ?w (map Num [3000..r]))"
    "3000 \<le> r" "r \<le> 3010" "available ?w (Num r)"
    by auto
  from r(2,3,4) have "r = 3010" by (simp add: available_linux_world)
  with r(1) show ?thesis by simp
qed

text \<open>
  Claim C2, as amended. The search has no configured range and no \<open>PortExhausted\<close>
  error. When every port from the start \<open>p\<close> up to a bound \<open>hi\<close> is in use and
  some TCP port \<open>q\<close> beyond \<open>hi\<close> is free, the search from \<open>p\<close> does not fail:
  it scans past \<open>hi\<close> and returns the least free port, which lies beyond \<open>hi\<close>,
  having probed \<open>p, p + 1, ...\<close> up to it. (All these probes are made on TCP port
  numbers, from \<open>p \<ge> 0\<close> to at most \<open>q \<le> 65535\<close>.)
\<close>

theorem findAvailablePort_scans_past_bound:
  assumes "0 \<le> p" and "p \<le> hi"
    and "\<forall>k. p \<le> k \<and> k \<le> hi \<longrightarrow> \<not> available w (Num k)"
    and "hi < q" and "q \<le> 65535" and "available w (Num q)"
  shows "\<exists>r. findAvailablePort (Num p) w = Some (Num r, probed w (map Num [p..r])) \<and>
             hi < r \<and> r \<le> q \<and> available w (Num r) \<and>
             (\<forall>k. p \<le> k \<and> k < r \<longrightarrow> \<not> available w (Num k))"
proof -
  from assms(2,4) have "p \<le> q" by simp
  from findAvailablePort_scan [OF refl this assms(6)] obtain r where
    r: "p \<le> r" "r \<le> q" "available w (Num r)"
      "\<forall>k. p \<le> k \<and> k < r \<longrightarrow> \<not> available w (Num k)"
      "findAvailablePort (Num p) w = Some (Num r, probed w (map Num [p..r]))"
    by blast
  from r(1,3) assms(3) have "hi < r" by (meson not_le)
  with r show ?thesis by blast
qed

text \<open>
  With 3000 to 3009 in use and 3010 free, the search from 3000 probes eleven ports and
  returns 3010.
\<close>

theorem findAvailablePort_scans_past_bound_witness:
  "findAvailablePort (Num 3000) (linux_world {3000..3009} None) =
     Some (Num 3010, probed (linux_world {3000..3009} None) (map Num [3000..3010]))"
proof -
  let ?w = "linux_world {3000..3009} None"
  have busy: "\<forall>k. 3000 \<le> k \<and> k \<le> 3009 \<longrightarrow> \<not> available ?w (Num k)"
    and free: "available ?w (Num 3010)"
    by (simp_all add: available_linux_world)
  from findAvailablePort_scans_past_bound [of 3000 3009 ?w 3010, OF _ _ busy _ _ free]
  obtain r where r: "findAvailablePort (Num 3000) ?w = Some (Num r, probed ?w (map Num [3000..r]))"
    "3009 < r" "r \<le> 3010"
    by auto
  from r(2,3) have "r = 3010" by simp
  with r(1) show ?thesis by simp
qed

subsection \<open>The steps of setupEnvironment\<close>

lemma choosePort_Some:
  assumes "choosePort port w = Some (a, w')"
  shows "\<exists>ps. w' = probed w (port # ps) \<and> last (port # ps) = a \<and> available w a"
proof (cases "available w port")
  case True
  with assms have "a = port" "w' = probed w [port]" by (auto simp: choosePort_eq)
  with True show ?thesis by (intro exI [of _ "[]"]) simp
next
  case False
  with assms have "findAvailablePort port (probed w [port]) = Some (a, w')"
    by (simp add: choosePort_eq)
  from findAvailablePort_Some [OF this] obtain ps where
    "w' = probed w (port # port # ps)" "last (port # ps) = a" "available w a"
    by (auto simp: scan_result_def probed_probed available_probed)
  then show ?thesis by (intro exI [of _ "port # ps"]) simp
qed

lemma scan_result_same_port:
  assumes "scan_result port w res" "scan_result port v res'"
    and same: "\<And>p. available v p = available w p"
  shows "fst res' = fst res"
proof (cases port)
  case NaN
  with assms show ?thesis by (simp add: scan_result_def)
next
  case (Num p)
  with assms(1) obtain r where r: "p \<le> r" "fst res = Num r" "available w (Num r)"
    "\<forall>k. p \<le> k \<and> k < r \<longrightarrow> \<not> available w (Num k)"
    by (auto simp: scan_result_def)
  from Num assms(2) obtain r' where r': "p \<le> r'" "fst res' = Num r'" "available w (Num r')"
    "\<forall>k. p \<le> k \<and> k < r' \<longrightarrow> \<not> available w (Num k)"
    by (auto simp: scan_result_def same)
  have "\<not> r < r'" using r(1,3) r'(4) by auto
  moreover have "\<not> r' < r" using r'(1,3) r(4) by auto
  ultimately show ?thesis using r(2) r'(2) by simp
qed

lemma choosePort_same_start:
  assumes "choosePort port w = Some (a, w')" "choosePort port (probed w ps) = Some (b, w'')"
  shows "b = a"
proof (cases "available w port")
  case True
  with assms show ?thesis by (auto simp: choosePort_eq available_probed)
next
  case False
  with assms have "findAvailablePort port (probed w [port]) = Some (a, w')"
    "findAvailablePort port (probed w (ps @ [port])) = Some (b, w'')"
    by (simp_all add: choosePort_eq available_probed probed_probed)
  from scan_result_same_port [OF findAvailablePort_Some [OF this(1)]
      findAvailablePort_Some [OF this(2)]]
  show ?thesis by (simp add: available_probed)
qed

text \<open>The first step: the data directory is there afterwards, nothing else changes.\<close>

lemma data_dir_step:
  assumes "(if \<not> existsSync w DataDir then mkdirSync w DataDir else Inr w) = Inr w1"
  shows "w1 = w \<or> w1 = w\<lparr>fs := (fs w)(DataDir \<mapsto> Dir)\<rparr>"
  using assms by (auto simp: mkdirSync_def split: if_splits option.splits node.splits)

lemma data_dir_step_facts:
  assumes "(if \<not> existsSync w DataDir then mkdirSync w DataDir else Inr w) = Inr w1"
  shows "fs w1 EnvFile = fs w EnvFile" "fs w1 WebEnvFile = fs w WebEnvFile"
    "probes w1 = probes w" "written w1 = written w" "available w1 port = available w port"
    "readExistingEnv w1 = readExistingEnv w" "rootDir w1 = rootDir w"
  using data_dir_step [OF assms]
  by (auto simp: available_def isPortAvailable_def Let_def readExistingEnv_def existsSync_def
      readFileSync_def split: platform.splits option.splits node.splits)

lemma readExistingEnv_Inr:
  assumes "readExistingEnv w = Inr E"
  shows "E = (case fs w EnvFile of Some (File content) \<Rightarrow> parseEnv content | _ \<Rightarrow> Map.empty)"
  using assms
  by (auto simp: readExistingEnv_def existsSync_def readFileSync_def
      split: if_splits option.splits node.splits sum.splits)


lemma setupEnvironment_Returned_ex:
  assumes "setupEnvironment w = Some (Returned \<lparr>apiPort = a, webPort = b\<rparr>, w')"
  shows "\<exists>w1 E w2 w3 w4.
    (if \<not> existsSync w DataDir then mkdirSync w DataDir else Inr w) = Inr w1 \<and>
    readExistingEnv w1 = Inr E \<and>
    choosePort (startPort E ''API_PORT'' DEFAULT_API_PORT) w1 = Some (a, w2) \<and>
    choosePort (startPort E ''WEB_PORT'' DEFAULT_WEB_PORT) w2 = Some (b, w3) \<and>
    (if envNeedsUpdate w3 E a b
      then writeFileSync w3 EnvFile (envContent (rootDir w3) a b)
      else Inr w3) = Inr w4 \<and>
    writeFileSync w4 WebEnvFile (webEnvContent a) = Inr w'"
proof (cases "if \<not> existsSync w DataDir then mkdirSync w DataDir else Inr w")
  case (Inl e)
  with assms show ?thesis by (simp add: setupEnvironment_def)
next
  case w1: (Inr w1)
  show ?thesis
  proof (cases "readExistingEnv w1")
    case (Inl e)
    with assms w1 show ?thesis by (simp add: setupEnvironment_def)
  next
    case E: (Inr E)
    show ?thesis
    proof (cases "choosePort (startPort E ''API_PORT'' DEFAULT_API_PORT) w1")
      case None
      with assms w1 E show ?thesis by (simp add: setupEnvironment_def)
    next
      case (Some aw)
      obtain a' w2 where aw: "aw = (a', w2)" by (cases aw)
      show ?thesis
      proof (cases "choosePort (startPort E ''WEB_PORT'' DEFAULT_WEB_PORT) w2")
        case None
        with assms w1 E Some aw show ?thesis by (simp add: setupEnvironment_def)
      next
        case b: (Some bw)
        obtain b' w3 where bw: "bw = (b', w3)" by (cases bw)
        let ?upd = "if envNeedsUpdate w3 E a' b'
          then writeFileSync w3 EnvFile (envContent (rootDir w3) a' b') else Inr w3"
        from assms w1 E Some aw b bw have run:
          "(case ?upd of Inl e \<Rightarrow> Some (Exited 1, w3)
            | Inr w4 \<Rightarrow> (case writeFileSync w4 WebEnvFile (webEnvContent a') of
                Inl e \<Rightarrow> Some (Exited 1, w4)
              | Inr w5 \<Rightarrow> Some (Returned \<lparr>apiPort = a', webPort = b'\<rparr>, w5))) =
           Some (Returned \<lparr>apiPort = a, webPort = b\<rparr>, w')"
          by (simp add: setupEnvironment_def)
        show ?thesis
        proof (cases ?upd)
          case (Inl e)
          with run show ?thesis by simp
        next
          case w4: (Inr w4)
          show ?thesis
          proof (cases "writeFileSync w4 WebEnvFile (webEnvContent a')")
            case (Inl e)
            with run w4 show ?thesis by simp
          next
            case (Inr w5)
            with run w4 have eq: "a' = a" "b' = b" "w5 = w'" by simp_all
            note steps = w1 E Some [unfolded aw eq] b [unfolded bw eq] w4 [unfolded eq]
              Inr [unfolded eq]
            show ?thesis
              apply (rule exI [of _ w1], rule exI [of _ E], rule exI [of _ w2])
              apply (rule exI [of _ w3], rule exI [of _ w4])
              apply (intro conjI)
                   apply (rule steps)+
              done
          qed
        qed
      qed
    qed
  qed
qed

lemma setupEnvironment_Returned:
  assumes "setupEnvironment w = Some (Returned r, w')"
  obtains w1 E w2 w3 w4 where
    "(if \<not> existsSync w DataDir then mkdirSync w DataDir else Inr w) = Inr w1"
    "readExistingEnv w1 = Inr E"
    "choosePort (startPort E ''API_PORT'' DEFAULT_API_PORT) w1 = Some (apiPort r, w2)"
    "choosePort (startPort E ''WEB_PORT'' DEFAULT_WEB_PORT) w2 = Some (webPort r, w3)"
    "(if envNeedsUpdate w3 E (apiPort r) (webPort r)
      then writeFileSync w3 EnvFile (envContent (rootDir w3) (apiPort r) (webPort r))
      else Inr w3) = Inr w4"
    "writeFileSync w4 WebEnvFile (webEnvContent (apiPort r)) = Inr w'"
proof -
  have "r = \<lparr>apiPort = apiPort r, webPort = webPort r\<rparr>" by simp
  with assms have "setupEnvironment w =
    Some (Returned \<lparr>apiPort = apiPort r, webPort = webPort r\<rparr>, w')" by simp
  from setupEnvironment_Returned_ex [OF this] that show ?thesis by blast
qed

lemma writeFileSync_Inr:
  assumes "writeFileSync w p c = Inr w'"
  shows "w' = w\<lparr>fs := (fs w)(p \<mapsto> File c), written := written w @ [(p, c)]\<rparr>"
  using assms by (simp add: writeFileSync_def split: if_splits)

lemma choosePort_free:
  "available w port \<Longrightarrow> choosePort port w = Some (port, probed w [port])"
  by (simp add: choosePort_eq)

lemma writeFileSync_ok:
  "\<not> write_fails w p \<Longrightarrow> fs w p \<noteq> Some Dir \<Longrightarrow>
   writeFileSync w p c = Inr (w\<lparr>fs := (fs w)(p \<mapsto> File c), written := written w @ [(p, c)]\<rparr>)"
  by (simp add: writeFileSync_def)

subsection \<open>Two runs on example hosts\<close>

lemma linux_world_fields:
  "fs (linux_world busy env) DataDir = Some Dir"
  "fs (linux_world busy env) EnvFile = map_option File env"
  "fs (linux_world busy env) WebEnvFile = None"
  "read_fails (linux_world busy env) p = False"
  "write_fails (linux_world busy env) p = False"
  "probes (linux_world busy env) = []"
  "written (linux_world busy env) = []"
  "rootDir (linux_world busy env) = ''/app''"
  by (simp_all add: linux_world_def)

lemma parseEnv_two_ports:
  "parseEnv env_two_ports = [''API_PORT'' \<mapsto> ''8081'', ''WEB_PORT'' \<mapsto> ''3001'']"
  by (simp add: env_two_ports_def parseEnv_def parseEnvLine_def newline_def startsWith_def
      trim_def is_space_def)

lemma parseEnv_api_3000:
  "parseEnv env_api_3000 = [''API_PORT'' \<mapsto> ''3000'']"
  by (simp add: env_api_3000_def parseEnv_def parseEnvLine_def newline_def startsWith_def
      trim_def is_space_def)



lemma parseInt_examples:
  "parseInt ''8081'' (Some 10) = Num 8081" "parseInt ''8081'' None = Num 8081"
  "parseInt ''3001'' (Some 10) = Num 3001" "parseInt ''3001'' None = Num 3001"
  "parseInt ''3000'' (Some 10) = Num 3000" "parseInt ''3000'' None = Num 3000"
  "parseInt ''undefined'' None = NaN"
  by (simp_all add: parseInt_def digit_value_def is_space_def Let_def)

text \<open>
  Nothing listens and \<open>.env\<close> records 8081 and 3001: both ports are kept, \<open>.env\<close>
  is left alone and \<open>.env.local\<close> is written.
\<close>

lemma run_two_ports:
  "setupEnvironment (linux_world {} (Some env_two_ports)) =
   Some (Returned \<lparr>apiPort = Num 8081, webPort = Num 3001\<rparr>,
     (probed (linux_world {} (Some env_two_ports)) [Num 8081, Num 3001])
       \<lparr>fs := (fs (linux_world {} (Some env_two_ports)))
            (WebEnvFile \<mapsto> File (webEnvContent (Num 8081))),
        written := [(WebEnvFile, webEnvContent (Num 8081))]\<rparr>)"
  by (simp add: setupEnvironment_def existsSync_def readExistingEnv_def readFileSync_def
      linux_world_fields parseEnv_two_ports startPort_def parseInt_examples
      choosePort_free available_linux_world available_probed probed_fields probed_probed
      envNeedsUpdate_def writeFileSync_ok DEFAULT_API_PORT_def DEFAULT_WEB_PORT_def)

text \<open>
  Nothing listens and \<open>.env\<close> records the API port 3000 only: the web port is the
  default 3000 as well, and \<open>.env\<close> is rewritten.
\<close>

lemma run_api_3000:
  "setupEnvironment (linux_world {} (Some env_api_3000)) =
   Some (Returned \<lparr>apiPort = Num 3000, webPort = Num 3000\<rparr>,
     (probed (linux_world {} (Some env_api_3000)) [Num 3000, Num 3000])
       \<lparr>fs := (fs (linux_world {} (Some env_api_3000)))
            (EnvFile \<mapsto> File (envContent ''/app'' (Num 3000) (Num 3000)),
             WebEnvFile \<mapsto> File (webEnvContent (Num 3000))),
        written := [(EnvFile, envContent ''/app'' (Num 3000) (Num 3000)),
                    (WebEnvFile, webEnvContent (Num 3000))]\<rparr>)"
  by (simp add: setupEnvironment_def existsSync_def readExistingEnv_def readFileSync_def
      linux_world_fields parseEnv_api_3000 startPort_def parseInt_examples
      choosePort_free available_linux_world available_probed probed_fields probed_probed
      envNeedsUpdate_def writeFileSync_ok DEFAULT_API_PORT_def DEFAULT_WEB_PORT_def)

subsection \<open>Where the port search starts\<close>




subsection \<open>Which files a run writes\<close>

text \<open>
  Claim C10. In every run that returns, the last file written is \<open>.env.local\<close>, with
  the API port returned, whatever was written before it. If moreover \<open>.env\<close> exists
  and the values it records for \<open>API_PORT\<close> and \<open>WEB_PORT\<close> parse (by \<open>parseInt\<close>
  without radix, as the script compares them) to the two ports returned, then \<open>.env\<close>
  keeps its content and \<open>.env.local\<close> is the only file written.
\<close>

theorem setupEnvironment_env_files:
  assumes "setupEnvironment w = Some (Returned r, w')"
  shows "(\<exists>pre. written w' = written w @ pre @ [(WebEnvFile, webEnvContent (apiPort r))]) \<and>
         fs w' WebEnvFile = Some (File (webEnvContent (apiPort r))) \<and>
         (\<forall>content a b.
            fs w EnvFile = Some (File content) \<and>
            parseInt (js_to_string (parseEnv content ''API_PORT'')) None = Num a \<and>
            apiPort r = Num a \<and>
            parseInt (js_to_string (parseEnv content ''WEB_PORT'')) None = Num b \<and>
            webPort r = Num b \<longrightarrow>
            fs w' EnvFile = Some (File content) \<and>
            written w' = written w @ [(WebEnvFile, webEnvContent (apiPort r))])"
proof -
  from setupEnvironment_Returned [OF assms] obtain w1 E w2 w3 w4 where
    s1: "(if \<not> existsSync w DataDir then mkdirSync w DataDir else Inr w) = Inr w1" and
    s2: "readExistingEnv w1 = Inr E" and
    s3: "choosePort (startPort E ''API_PORT'' DEFAULT_API_PORT) w1 = Some (apiPort r, w2)" and
    s4: "choosePort (startPort E ''WEB_PORT'' DEFAULT_WEB_PORT) w2 = Some (webPort r, w3)" and
    s5: "(if envNeedsUpdate w3 E (apiPort r) (webPort r)
      then writeFileSync w3 EnvFile (envContent (rootDir w3) (apiPort r) (webPort r))
      else Inr w3) = Inr w4" and
    s6: "writeFileSync w4 WebEnvFile (webEnvContent (apiPort r)) = Inr w'"
    by blast
  from s2 have E: "E = (case fs w EnvFile of Some (File content) \<Rightarrow> parseEnv content | _ \<Rightarrow> Map.empty)"
    using readExistingEnv_Inr [of w E] by (simp add: data_dir_step_facts [OF s1])
  from choosePort_Some [OF s3] obtain ps where ps: "w2 = probed w1 ps" by blast
  from choosePort_Some [OF s4] obtain qs where qs: "w3 = probed w2 qs" by blast
  have w3: "written w3 = written w" "fs w3 EnvFile = fs w EnvFile"
    using ps qs by (simp_all add: probed_fields data_dir_step_facts [OF s1])
  have w': "written w' = written w4 @ [(WebEnvFile, webEnvContent (apiPort r))]"
    "fs w' WebEnvFile = Some (File (webEnvContent (apiPort r)))" "fs w' EnvFile = fs w4 EnvFile"
    using writeFileSync_Inr [OF s6] by simp_all
  have "\<exists>pre. written w4 = written w3 @ pre"
    using s5 by (auto dest!: writeFileSync_Inr split: if_splits)
  with w3 w' have first: "\<exists>pre. written w' = written w @ pre @ [(WebEnvFile, webEnvContent (apiPort r))]"
    by auto
  have third: "fs w' EnvFile = Some (File content) \<and>
      written w' = written w @ [(WebEnvFile, webEnvContent (apiPort r))]"
    if h: "fs w EnvFile = Some (File content) \<and>
      parseInt (js_to_string (parseEnv content ''API_PORT'')) None = Num a \<and>
      apiPort r = Num a \<and>
      parseInt (js_to_string (parseEnv content ''WEB_PORT'')) None = Num b \<and>
      webPort r = Num b" for content a b
  proof -
    from h E have "\<not> envNeedsUpdate w3 E (apiPort r) (webPort r)"
      by (simp add: envNeedsUpdate_def existsSync_def w3)
    with s5 have "w4 = w3" by simp
    with w3 w' h show ?thesis by simp
  qed
  from first w'(2) third show ?thesis by blast
qed

theorem setupEnvironment_env_files_witness:
  "setupEnvironment (linux_world {} (Some env_two_ports)) =
     Some (Returned \<lparr>apiPort = Num 8081, webPort = Num 3001\<rparr>,
       (probed (linux_world {} (Some env_two_ports)) [Num 8081, Num 3001])
         \<lparr>fs := (fs (linux_world {} (Some env_two_ports)))
              (WebEnvFile \<mapsto> File (webEnvContent (Num 8081))),
          written := [(WebEnvFile, webEnvContent (Num 8081))]\<rparr>) \<and>
   fs (linux_world {} (Some env_two_ports)) EnvFile = Some (File env_two_ports) \<and>
   parseInt (js_to_string (parseEnv env_two_ports ''API_PORT'')) None = Num 8081 \<and>
   parseInt (js_to_string (parseEnv env_two_ports ''WEB_PORT'')) None = Num 3001 \<and>
   ((fs (linux_world {} (Some env_two_ports)))
      (WebEnvFile \<mapsto> File (webEnvContent (Num 8081)))) EnvFile = Some (File env_two_ports)"
proof -
  note run = run_two_ports
  have pre: "fs (linux_world {} (Some env_two_ports)) EnvFile = Some (File env_two_ports) \<and>
      parseInt (js_to_string (parseEnv env_two_ports ''API_PORT'')) None = Num 8081 \<and>
      apiPort \<lparr>apiPort = Num 8081, webPort = Num 3001\<rparr> = Num 8081 \<and>
      parseInt (js_to_string (parseEnv env_two_ports ''WEB_PORT'')) None = Num 3001 \<and>
      webPort \<lparr>apiPort = Num 8081, webPort = Num 3001\<rparr> = Num 3001"
    by (simp add: linux_world_fields parseEnv_two_ports parseInt_examples)
  from setupEnvironment_env_files [OF run] pre
  have "fs ((probed (linux_world {} (Some env_two_ports)) [Num 8081, Num 3001])
         \<lparr>fs := (fs (linux_world {} (Some env_two_ports)))
              (WebEnvFile \<mapsto> File (webEnvContent (Num 8081))),
          written := [(WebEnvFile, webEnvContent (Num 8081))]\<rparr>) EnvFile =
        Some (File env_two_ports)"
    by blast
  with run pre show ?thesis by simp
qed

subsection \<open>The two ports of one run\<close>

text \<open>
  Claim C4 says that the ports handed out are pairwise distinct. The script hands out
  two ports, and it keeps no record of the first when it looks for the second: with
  \<open>API_PORT=3000\<close> in \<open>.env\<close> and nothing listening, the API and the web server
  are both given port 3000.
\<close>

theorem setupEnvironment_same_port_counterexample:
  "map_option fst (setupEnvironment (linux_world {} (Some env_api_3000))) =
     Some (Returned \<lparr>apiPort = Num 3000, webPort = Num 3000\<rparr>)"
  by (simp add: run_api_3000)

text \<open>
  Claim C4, as amended. A port that a probe reports in use is never handed out: both
  ports returned by a run are free when probed. Nothing keeps the two ports apart:
  when both searches start at the same port, both return the same port.
\<close>

theorem setupEnvironment_ports_free:
  assumes "setupEnvironment w = Some (Returned r, w')"
  shows "available w (apiPort r) \<and> available w (webPort r) \<and>
         (\<forall>E. readExistingEnv w = Inr E \<and>
            startPort E ''API_PORT'' DEFAULT_API_PORT = startPort E ''WEB_PORT'' DEFAULT_WEB_PORT \<longrightarrow>
            webPort r = apiPort r)"
proof -
  from setupEnvironment_Returned [OF assms] obtain w1 E w2 w3 w4 where
    s1: "(if \<not> existsSync w DataDir then mkdirSync w DataDir else Inr w) = Inr w1" and
    s2: "readExistingEnv w1 = Inr E" and
    s3: "choosePort (startPort E ''API_PORT'' DEFAULT_API_PORT) w1 = Some (apiPort r, w2)" and
    s4: "choosePort (startPort E ''WEB_PORT'' DEFAULT_WEB_PORT) w2 = Some (webPort r, w3)" and
    s5: "(if envNeedsUpdate w3 E (apiPort r) (webPort r)
      then writeFileSync w3 EnvFile (envContent (rootDir w3) (apiPort r) (webPort r))
      else Inr w3) = Inr w4" and
    s6: "writeFileSync w4 WebEnvFile (webEnvContent (apiPort r)) = Inr w'"
    by blast
  from choosePort_Some [OF s3] obtain ps where
    ps: "w2 = probed w1 ps" and a: "available w1 (apiPort r)" by blast
  from choosePort_Some [OF s4] have b: "available w2 (webPort r)" by blast
  from a have "available w (apiPort r)" by (simp add: data_dir_step_facts [OF s1])
  moreover from b ps have "available w (webPort r)"
    by (simp add: available_probed data_dir_step_facts [OF s1])
  moreover have "webPort r = apiPort r"
    if h: "readExistingEnv w = Inr E' \<and>
      startPort E' ''API_PORT'' DEFAULT_API_PORT = startPort E' ''WEB_PORT'' DEFAULT_WEB_PORT" for E'
  proof -
    have "readExistingEnv w = Inr E" using s2 by (simp only: data_dir_step_facts(6) [OF s1])
    with h have "E' = E" by simp
    with h have same: "startPort E ''WEB_PORT'' DEFAULT_WEB_PORT =
      startPort E ''API_PORT'' DEFAULT_API_PORT" by simp
    have "choosePort (startPort E ''API_PORT'' DEFAULT_API_PORT) (probed w1 ps) =
      Some (webPort r, w3)" using s4 by (simp only: same ps)
    from choosePort_same_start [OF s3 this] show ?thesis .
  qed
  ultimately show ?thesis by blast
qed

theorem setupEnvironment_ports_free_witness:
  "available (linux_world {} (Some env_api_3000)) (Num 3000) \<and>
   readExistingEnv (linux_world {} (Some env_api_3000)) = Inr (parseEnv env_api_3000) \<and>
   startPort (parseEnv env_api_3000) ''API_PORT'' DEFAULT_API_PORT =
     startPort (parseEnv env_api_3000) ''WEB_PORT'' DEFAULT_WEB_PORT \<and>
   map_option fst (setupEnvironment (linux_world {} (Some env_api_3000))) =
     Some (Returned \<lparr>apiPort = Num 3000, webPort = Num 3000\<rparr>)"
  using setupEnvironment_ports_free [OF run_api_3000]
  by (simp add: run_api_3000 readExistingEnv_def existsSync_def readFileSync_def
      linux_world_fields parseEnv_api_3000 startPort_def parseInt_examples
      DEFAULT_API_PORT_def DEFAULT_WEB_PORT_def)

subsection \<open>Two requests in a row\<close>

lemma findAvailablePort_again:
  assumes "findAvailablePort port w = Some (a, w1)"
    and same: "\<And>p. available v p = available w p"
  shows "map_option fst (findAvailablePort port v) = Some a"
proof -
  note first = findAvailablePort_Some [OF assms(1)]
  have "\<exists>res. findAvailablePort port v = Some res"
  proof (cases port)
    case NaN
    with first have "available w NaN" by (auto simp: scan_result_def)
    with NaN show ?thesis by (simp add: findAvailablePort_free same)
  next
    case (Num p)
    with first obtain r where "p \<le> r" "available w (Num r)"
      by (auto simp: scan_result_def)
    with findAvailablePort_scan [OF refl, of p r v] Num show ?thesis
      by (auto simp: same)
  qed
  then obtain res where res: "findAvailablePort port v = Some res" ..
  from scan_result_same_port [OF first findAvailablePort_Some [OF res] same]
  have "fst res = a" by simp
  with res show ?thesis by simp
qed

text \<open>
  Claim C3, as amended. With 3001 and 3002 in use, a search from 3000 returns the next
  free port: 3000 itself when it is free, and 3003 when 3000 is in use too and 3003 is
  free. A second search made in the world the first one leaves behind returns the same
  port again; it returns a different port on any host where the first port has been
  bound in the meantime.
\<close>

theorem findAvailablePort_3001_3002_busy:
  assumes "\<not> available w (Num 3001)" and "\<not> available w (Num 3002)"
  shows "(available w (Num 3000) \<longrightarrow>
            findAvailablePort (Num 3000) w = Some (Num 3000, probed w [Num 3000])) \<and>
         (\<not> available w (Num 3000) \<and> available w (Num 3003) \<longrightarrow>
            findAvailablePort (Num 3000) w =
              Some (Num 3003, probed w [Num 3000, Num 3001, Num 3002, Num 3003])) \<and>
         (\<forall>a w1. findAvailablePort (Num 3000) w = Some (a, w1) \<longrightarrow>
            map_option fst (findAvailablePort (Num 3000) w1) = Some a) \<and>
         (\<forall>a w1 v b v1. findAvailablePort (Num 3000) w = Some (a, w1) \<and>
            \<not> available v a \<and> findAvailablePort (Num 3000) v = Some (b, v1) \<longrightarrow> b \<noteq> a)"
proof (intro conjI allI impI)
  assume "available w (Num 3000)"
  then show "findAvailablePort (Num 3000) w = Some (Num 3000, probed w [Num 3000])"
    by (rule findAvailablePort_free)
next
  assume h: "\<not> available w (Num 3000) \<and> available w (Num 3003)"
  with assms show "findAvailablePort (Num 3000) w =
      Some (Num 3003, probed w [Num 3000, Num 3001, Num 3002, Num 3003])"
    by (simp add: findAvailablePort_busy findAvailablePort_free available_probed probed_probed)
next
  fix a w1
  assume first: "findAvailablePort (Num 3000) w = Some (a, w1)"
  from findAvailablePort_Some [OF first] obtain ps where "w1 = probed w ps"
    by (auto simp: scan_result_def)
  then have "\<And>p. available w1 p = available w p" by (simp add: available_probed)
  from findAvailablePort_again [OF first this]
  show "map_option fst (findAvailablePort (Num 3000) w1) = Some a" .
next
  fix a w1 v b v1
  assume h: "findAvailablePort (Num 3000) w = Some (a, w1) \<and>
    \<not> available v a \<and> findAvailablePort (Num 3000) v = Some (b, v1)"
  then have "findAvailablePort (Num 3000) v = Some (b, v1)" by blast
  from findAvailablePort_Some [OF this] have "available v b" by (simp add: scan_result_def)
  with h show "b \<noteq> a" by blast
qed

text \<open>The two cases of the scenario, on hosts with listeners on 3000 to 3002 and on 3001 and 3002.\<close>

theorem findAvailablePort_3001_3002_busy_witness:
  "findAvailablePort (Num 3000) (linux_world {3000, 3001, 3002} None) =
     Some (Num 3003,
       probed (linux_world {3000, 3001, 3002} None) [Num 3000, Num 3001, Num 3002, Num 3003]) \<and>
   map_option fst (findAvailablePort (Num 3000)
     (probed (linux_world {3000, 3001, 3002} None) [Num 3000, Num 3001, Num 3002, Num 3003])) =
     Some (Num 3003) \<and>
   findAvailablePort (Num 3000) (linux_world {3001, 3002} None) =
     Some (Num 3000, probed (linux_world {3001, 3002} None) [Num 3000])"
proof -
  let ?w = "linux_world {3000, 3001, 3002} None"
  let ?v = "linux_world {3001, 3002} None"
  have w: "\<not> available ?w (Num 3001)" "\<not> available ?w (Num 3002)"
    "\<not> available ?w (Num 3000) \<and> available ?w (Num 3003)"
    by (simp_all add: available_linux_world)
  have v: "\<not> available ?v (Num 3001)" "\<not> available ?v (Num 3002)" "available ?v (Num 3000)"
    by (simp_all add: available_linux_world)
  note W = findAvailablePort_3001_3002_busy [OF w(1,2)]
  note V = findAvailablePort_3001_3002_busy [OF v(1,2)]
  from W w(3) have 1: "findAvailablePort (Num 3000) ?w =
      Some (Num 3003, probed ?w [Num 3000, Num 3001, Num 3002, Num 3003])" by blast
  with W have 2: "map_option fst (findAvailablePort (Num 3000)
      (probed ?w [Num 3000, Num 3001, Num 3002, Num 3003])) = Some (Num 3003)" by blast
  from V v(3) have 3: "findAvailablePort (Num 3000) ?v = Some (Num 3000, probed ?v [Num 3000])"
    by blast
  from 1 2 3 show ?thesis by blast
qed

text \<open>
  Claim C3 says that a second request made at the same time receives a different port.
  The search records nothing: with listeners on 3001 and 3002 the first request is
  given 3000 and so is the second; with a listener on 3000 as well both are given 3003.
\<close>

theorem findAvailablePort_second_request_counterexample:
  "findAvailablePort (Num 3000) (linux_world {3001, 3002} None) =
     Some (Num 3000, probed (linux_world {3001, 3002} None) [Num 3000]) \<and>
   findAvailablePort (Num 3000) (probed (linux_world {3001, 3002} None) [Num 3000]) =
     Some (Num 3000, probed (linux_world {3001, 3002} None) [Num 3000, Num 3000]) \<and>
   findAvailablePort (Num 3000) (linux_world {3000, 3001, 3002} None) =
     Some (Num 3003,
       probed (linux_world {3000, 3001, 3002} None) [Num 3000, Num 3001, Num 3002, Num 3003]) \<and>
   map_option fst (findAvailablePort (Num 3000)
     (probed (linux_world {3000, 3001, 3002} None) [Num 3000, Num 3001, Num 3002, Num 3003])) =
     Some (Num 3003)"
  by (simp add: findAvailablePort_busy findAvailablePort_free available_probed probed_probed
      available_linux_world)

section \<open>Properties of the project state machine\<close>


lemma next_status_Prompt:
  "next_status s Prompt = Some st \<Longrightarrow> s = Active \<and> st = Generating"
  by (cases s) auto

lemma next_status_SessionEnded:
  "next_status s (SessionEnded ok) = Some st \<Longrightarrow> s = Generating \<and> st \<noteq> Generating"
  by (cases s; cases ok) auto

lemma next_status_Cancel:
  "next_status s Cancel = Some st \<Longrightarrow> s = Generating \<and> st \<noteq> Generating"
  by (cases s) auto

lemma next_status_other:
  "next_status s cmd = Some st \<Longrightarrow> cmd \<in> {Initialized, Retry, Close} \<Longrightarrow>
   s \<noteq> Generating \<and> st \<noteq> Generating"
  by (cases s) auto

lemma live_end_session:
  "filter (\<lambda>s. owner s = q \<and> termination_reason s = None) (end_session sid reason ss) =
   filter (\<lambda>s. (owner s = q \<and> termination_reason s = None) \<and> session_id s \<noteq> sid) ss"
  by (induction ss) (auto simp: end_session_def)

lemma session_id_end_session: "map session_id (end_session sid reason ss) = map session_id ss"
  by (induction ss) (auto simp: end_session_def)

lemma length_end_session: "length (end_session sid reason ss) = length ss"
  by (simp add: end_session_def)

lemma session_ids_unique:
  assumes "map session_id ss = [0..<length ss]" "s \<in> set ss" "x \<in> set ss"
    "session_id s = session_id x"
  shows "s = x"
proof -
  have "distinct (map session_id ss)" by (simp add: assms(1))
  then have "inj_on session_id (set ss)" by (simp add: distinct_map)
  with assms(2-4) show ?thesis by (auto dest: inj_onD)
qed

lemma machine_inv_initial: "machine_inv initial_machine"
  by (simp add: machine_inv_def initial_machine_def live_sessions_def)

lemma machine_inv_end_active:
  assumes inv: "machine_inv m" and gen: "status (projects m pid) = Generating"
    and st: "st \<noteq> Generating"
  shows "machine_inv
    (m\<lparr>projects := (projects m)(pid := \<lparr>status = st, active_session = None\<rparr>),
       sessions := end_active (projects m pid) reason (sessions m)\<rparr>)"
proof -
  from inv gen obtain sid where sid: "active_session (projects m pid) = Some sid"
    and live: "live_sessions m pid = [\<lparr>session_id = sid, owner = pid, termination_reason = None\<rparr>]"
    by (auto simp: machine_inv_def split: if_splits)
  let ?x = "\<lparr>session_id = sid, owner = pid, termination_reason = None\<rparr>"
  from inv have ids: "map session_id (sessions m) = [0..<length (sessions m)]"
    by (simp add: machine_inv_def)
  have x: "?x \<in> set (sessions m)"
  proof -
    have "?x \<in> set (live_sessions m pid)" by (simp add: live)
    then show ?thesis by (simp add: live_sessions_def)
  qed
  have ended: "end_active (projects m pid) reason (sessions m) =
      end_session sid reason (sessions m)"
    by (simp add: end_active_def sid)
  have self: "filter (\<lambda>s. owner s = pid \<and> termination_reason s = None)
      (end_session sid reason (sessions m)) = []"
  proof -
    have "filter (\<lambda>s. (owner s = pid \<and> termination_reason s = None) \<and> session_id s \<noteq> sid)
        (sessions m) = filter (\<lambda>s. session_id s \<noteq> sid) (live_sessions m pid)"
      by (simp add: live_sessions_def conj_commute)
    then show ?thesis by (simp add: live_end_session live)
  qed
  have other: "filter (\<lambda>s. owner s = q \<and> termination_reason s = None)
      (end_session sid reason (sessions m)) = live_sessions m q" if "q \<noteq> pid" for q
  proof -
    have "session_id s \<noteq> sid" if "s \<in> set (sessions m)" "owner s = q" for s
    proof
      assume "session_id s = sid"
      with session_ids_unique [OF ids that(1) x] have "s = ?x" by simp
      with that(2) \<open>q \<noteq> pid\<close> show False by simp
    qed
    then show ?thesis
      by (auto simp: live_end_session live_sessions_def intro: filter_cong)
  qed
  show ?thesis
    unfolding machine_inv_def
  proof (intro conjI allI)
    show "map session_id (sessions (m\<lparr>projects := (projects m)
          (pid := \<lparr>status = st, active_session = None\<rparr>),
        sessions := end_active (projects m pid) reason (sessions m)\<rparr>)) =
      [0..<length (sessions (m\<lparr>projects := (projects m)
          (pid := \<lparr>status = st, active_session = None\<rparr>),
        sessions := end_active (projects m pid) reason (sessions m)\<rparr>))]"
      by (simp add: ended session_id_end_session length_end_session ids)
  next
    fix q
    let ?m' = "m\<lparr>projects := (projects m)(pid := \<lparr>status = st, active_session = None\<rparr>),
        sessions := end_active (projects m pid) reason (sessions m)\<rparr>"
    show "if status (projects ?m' q) = Generating
        then \<exists>sid. active_session (projects ?m' q) = Some sid \<and>
          live_sessions ?m' q = [\<lparr>session_id = sid, owner = q, termination_reason = None\<rparr>]
        else live_sessions ?m' q = []"
    proof (cases "q = pid")
      case True
      with st self show ?thesis by (simp add: live_sessions_def ended)
    next
      case False
      from inv have "if status (projects m q) = Generating
        then \<exists>sid. active_session (projects m q) = Some sid \<and>
          live_sessions m q = [\<lparr>session_id = sid, owner = q, termination_reason = None\<rparr>]
        else live_sessions m q = []"
        by (simp add: machine_inv_def)
      moreover have "live_sessions ?m' q = live_sessions m q"
        using other [OF False] by (simp add: live_sessions_def ended)
      ultimately show ?thesis using False by simp
    qed
  qed
qed

lemma machine_inv_spawn:
  assumes inv: "machine_inv m" and act: "status (projects m pid) = Active"
  shows "machine_inv
    (m\<lparr>projects := (projects m)
         (pid := \<lparr>status = Generating, active_session = Some (length (sessions m))\<rparr>),
       sessions := sessions m @
         [\<lparr>session_id = length (sessions m), owner = pid, termination_reason = None\<rparr>]\<rparr>)"
proof -
  from inv act have none: "live_sessions m pid = []"
    by (auto simp: machine_inv_def split: if_splits)
  from inv have ids: "map session_id (sessions m) = [0..<length (sessions m)]"
    by (simp add: machine_inv_def)
  from inv have rest: "if status (projects m q) = Generating
        then \<exists>sid. active_session (projects m q) = Some sid \<and>
          live_sessions m q = [\<lparr>session_id = sid, owner = q, termination_reason = None\<rparr>]
        else live_sessions m q = []" for q
    by (simp add: machine_inv_def)
  show ?thesis
    unfolding machine_inv_def
  proof (intro conjI allI)
    fix q
    let ?m' = "m\<lparr>projects := (projects m)
         (pid := \<lparr>status = Generating, active_session = Some (length (sessions m))\<rparr>),
       sessions := sessions m @
         [\<lparr>session_id = length (sessions m), owner = pid, termination_reason = None\<rparr>]\<rparr>"
    show "if status (projects ?m' q) = Generating
        then \<exists>sid. active_session (projects ?m' q) = Some sid \<and>
          live_sessions ?m' q = [\<lparr>session_id = sid, owner = q, termination_reason = None\<rparr>]
        else live_sessions ?m' q = []"
    proof (cases "q = pid")
      case True
      have "live_sessions ?m' pid = live_sessions m pid @
          [\<lparr>session_id = length (sessions m), owner = pid, termination_reason = None\<rparr>]"
        by (simp add: live_sessions_def)
      with True none show ?thesis by simp
    next
      case False
      then have "live_sessions ?m' q = live_sessions m q" by (simp add: live_sessions_def)
      with rest [of q] False show ?thesis by simp
    qed
  qed (simp add: ids)
qed

lemma machine_inv_status_only:
  assumes inv: "machine_inv m" and
    "status (projects m pid) \<noteq> Generating" "st \<noteq> Generating"
  shows "machine_inv (m\<lparr>projects := (projects m)(pid := (projects m pid)\<lparr>status := st\<rparr>)\<rparr>)"
proof -
  have live: "live_sessions
      (m\<lparr>projects := (projects m)(pid := (projects m pid)\<lparr>status := st\<rparr>)\<rparr>) q =
    live_sessions m q" for q
    by (simp add: live_sessions_def)
  from assms show ?thesis by (auto simp: machine_inv_def live)
qed

lemma machine_inv_apply_command:
  assumes inv: "machine_inv m"
  shows "machine_inv (snd (apply_command pid cmd m))"
proof (cases "next_status (status (projects m pid)) cmd")
  case None
  with inv show ?thesis by (simp add: apply_command_def)
next
  case (Some st)
  show ?thesis
  proof (cases cmd)
    case Prompt
    with Some have "status (projects m pid) = Active" "st = Generating"
      by (auto dest: next_status_Prompt)
    with machine_inv_spawn [OF inv this(1)] Some Prompt show ?thesis
      by (simp add: apply_command_def Let_def)
  next
    case (SessionEnded ok)
    with Some have "status (projects m pid) = Generating" "st \<noteq> Generating"
      by (auto dest: next_status_SessionEnded)
    from machine_inv_end_active [OF inv this] Some SessionEnded show ?thesis
      by (simp add: apply_command_def Let_def)
  next
    case Cancel
    with Some have "status (projects m pid) = Generating" "st \<noteq> Generating"
      by (auto dest: next_status_Cancel)
    from machine_inv_end_active [OF inv this] Some Cancel show ?thesis
      by (simp add: apply_command_def Let_def)
  next
    case Initialized
    with Some next_status_other [OF Some] machine_inv_status_only [OF inv, of pid st]
    show ?thesis by (simp add: apply_command_def Let_def)
  next
    case Retry
    with Some next_status_other [OF Some] machine_inv_status_only [OF inv, of pid st]
    show ?thesis by (simp add: apply_command_def Let_def)
  next
    case Close
    with Some next_status_other [OF Some] machine_inv_status_only [OF inv, of pid st]
    show ?thesis by (simp add: apply_command_def Let_def)
  qed
qed

lemma machine_inv_foldl:
  "machine_inv m \<Longrightarrow>
   machine_inv (foldl (\<lambda>m (pid, cmd). snd (apply_command pid cmd m)) m attempts)"
  by (induction attempts arbitrary: m) (auto simp: machine_inv_apply_command)

lemma machine_inv_run: "machine_inv (run_machine attempts)"
  by (simp add: run_machine_def machine_inv_foldl machine_inv_initial)

lemma machine_inv_live: "machine_inv m \<Longrightarrow> length (live_sessions m pid) \<le> 1"
  by (auto simp: machine_inv_def dest!: spec [of _ pid] split: if_splits)

lemma run_machine_generating:
  "run_machine [(7, Initialized), (7, Prompt)] =
     \<lparr>projects = (\<lambda>pid. \<lparr>status = Initializing, active_session = None\<rparr>)
        (7 := \<lparr>status = Generating, active_session = Some 0\<rparr>),
      sessions = [\<lparr>session_id = 0, owner = 7, termination_reason = None\<rparr>]\<rparr>"
  by (simp add: run_machine_def initial_machine_def apply_command_def Let_def)

text \<open>
  Claim C6. After any series of attempts on any projects, valid or not, every project
  has at most one session that has not ended, and one more attempt, whatever it is,
  leaves it so.
\<close>

theorem one_live_session:
  "length (live_sessions (run_machine attempts) pid) \<le> 1 \<and>
   length (live_sessions (snd (apply_command q cmd (run_machine attempts))) pid) \<le> 1"
  using machine_inv_live [OF machine_inv_run]
    machine_inv_live [OF machine_inv_apply_command [OF machine_inv_run]]
  by blast

text \<open>
  Project 7 after its first prompt: one running session; a second prompt adds none, and
  the end of the session leaves none.
\<close>

theorem one_live_session_witness:
  "length (live_sessions (run_machine [(7, Initialized), (7, Prompt)]) 7) \<le> 1 \<and>
   live_sessions (run_machine [(7, Initialized), (7, Prompt)]) 7 =
     [\<lparr>session_id = 0, owner = 7, termination_reason = None\<rparr>] \<and>
   length (live_sessions
     (snd (apply_command 7 Prompt (run_machine [(7, Initialized), (7, Prompt)]))) 7) \<le> 1 \<and>
   live_sessions
     (snd (apply_command 7 (SessionEnded True) (run_machine [(7, Initialized), (7, Prompt)]))) 7 = []"
proof -
  note inst = one_live_session [of "[(7, Initialized), (7, Prompt)]" 7 7 Prompt]
  have "live_sessions (run_machine [(7, Initialized), (7, Prompt)]) 7 =
     [\<lparr>session_id = 0, owner = 7, termination_reason = None\<rparr>]"
    by (simp add: run_machine_generating live_sessions_def)
  moreover have "live_sessions
     (snd (apply_command 7 (SessionEnded True) (run_machine [(7, Initialized), (7, Prompt)]))) 7 = []"
    by (simp add: run_machine_generating live_sessions_def apply_command_def Let_def
        end_active_def end_session_def)
  ultimately show ?thesis using inst by blast
qed

text \<open>
  Claim C8. An attempt fails with \<open>InvalidTransition\<close> exactly when the project's
  status has no transition for it, and then the call returns the machine it was given:
  no status has changed and no session has been added. A prompt sent to a project that
  is \<open>Generating\<close> is such an attempt.
\<close>

theorem invalid_transition_rejected:
  "(fst (apply_command pid cmd m) = Some InvalidTransition \<longleftrightarrow>
      next_status (status (projects m pid)) cmd = None) \<and>
   (next_status (status (projects m pid)) cmd = None \<longrightarrow>
      apply_command pid cmd m = (Some InvalidTransition, m)) \<and>
   (status (projects m pid) = Generating \<longrightarrow>
      apply_command pid Prompt m = (Some InvalidTransition, m))"
  by (auto simp: apply_command_def Let_def split: option.splits)

text \<open>Project 7 while it is generating: a second prompt is rejected, a cancel is accepted.\<close>

theorem invalid_transition_rejected_witness:
  "status (projects (run_machine [(7, Initialized), (7, Prompt)]) 7) = Generating \<and>
   next_status Generating Prompt = None \<and>
   apply_command 7 Prompt (run_machine [(7, Initialized), (7, Prompt)]) =
     (Some InvalidTransition, run_machine [(7, Initialized), (7, Prompt)]) \<and>
   fst (apply_command 7 Cancel (run_machine [(7, Initialized), (7, Prompt)])) = None"
proof -
  let ?m = "run_machine [(7, Initialized), (7, Prompt)]"
  have gen: "status (projects ?m 7) = Generating" by (simp add: run_machine_generating)
  note inst = invalid_transition_rejected [of 7 Prompt ?m]
  note inst2 = invalid_transition_rejected [of 7 Cancel ?m]
  from inst gen have "apply_command 7 Prompt ?m = (Some InvalidTransition, ?m)" by blast
  moreover from inst2 gen have "fst (apply_command 7 Cancel ?m) \<noteq> Some InvalidTransition"
    by simp
  then have "fst (apply_command 7 Cancel ?m) = None"
    by (cases "fst (apply_command 7 Cancel ?m)") (auto intro: transition_error.exhaust)
  ultimately show ?thesis using gen by simp
qed

section \<open>Properties of the restart policy\<close>



















section \<open>Properties of the session relay\<close>

lemma map_seq_length: "map seq es = [1..<Suc n] \<Longrightarrow> length es = n"
proof -
  assume "map seq es = [1..<Suc n]"
  then have "length (map seq es) = length [1..<Suc n]" by simp
  then show ?thesis by simp
qed

lemma filter_seq_all:
  assumes "map seq es = [b..<m]" "k < b"
  shows "filter (\<lambda>e. k < seq e) es = es"
proof (rule filter_True, rule ballI)
  fix e assume "e \<in> set es"
  then have "seq e \<in> set (map seq es)" by simp
  with assms show "k < seq e" by simp
qed

lemma filter_seq_suffix:
  assumes "map seq es = [Suc a..<m]" "a \<le> k"
  shows "filter (\<lambda>e. k < seq e) es = drop (k - a) es"
  using assms
proof (induction es arbitrary: a)
  case Nil
  then show ?case by simp
next
  case (Cons e es)
  from Cons.prems(1) have lt: "Suc a < m" by (cases "Suc a < m") auto
  with Cons.prems(1) have e: "seq e = Suc a" and rest: "map seq es = [Suc (Suc a)..<m]"
    by (simp_all add: upt_conv_Cons)
  show ?case
  proof (cases "a = k")
    case True
    with filter_seq_all [OF rest, of k] e show ?thesis by simp
  next
    case False
    with Cons.prems(2) have "Suc a \<le> k" by simp
    then have "k - a = Suc (k - Suc a)" by arith
    with Cons.IH [OF rest \<open>Suc a \<le> k\<close>] e \<open>Suc a \<le> k\<close> show ?thesis
      by simp
  qed
qed

lemma drop_map_upt: "map seq es = [1..<Suc n] \<Longrightarrow> map seq (drop j es) = [Suc j..<Suc n]"
proof -
  assume "map seq es = [1..<Suc n]"
  then have "map seq (drop j es) = drop j [1..<Suc n]" by (simp add: drop_map [symmetric])
  then show ?thesis by (simp add: drop_upt)
qed

lemma relay_inv_new: "relay_inv (new_relay n c)"
  by (simp add: relay_inv_def new_relay_def keep_last_def)

lemma relay_inv_unsubscribe: "relay_inv r \<Longrightarrow> relay_inv (unsubscribe sid r)"
  by (simp add: relay_inv_def unsubscribe_def)

lemma relay_inv_take_next:
  assumes "relay_inv r"
  shows "relay_inv (take_next sid r)"
proof (cases "subscriptions r sid")
  case None
  with assms show ?thesis by (simp add: take_next_def)
next
  case (Some s)
  show ?thesis
  proof (cases "queue s")
    case Nil
    with Some assms show ?thesis by (simp add: take_next_def)
  next
    case (Cons e es)
    have obs: "observed (s\<lparr>taken := taken s @ [e], queue := es\<rparr>) = observed s"
      "sub_project (s\<lparr>taken := taken s @ [e], queue := es\<rparr>) = sub_project s"
      by (simp_all add: observed_def Cons)
    from assms Some Cons show ?thesis
      unfolding relay_inv_def take_next_def
      by (auto simp: obs)
  qed
qed

lemma relay_inv_subscribe:
  assumes inv: "relay_inv r"
  shows "relay_inv (snd (subscribe sid pid k r))"
proof (cases "k + length (ring r pid) < last_seq r pid")
  case True
  with inv show ?thesis by (simp add: subscribe_def)
next
  case False
  let ?es = "emitted r pid"
  let ?n = "last_seq r pid"
  let ?j = "length ?es - retain r"
  from inv have seqs: "map seq ?es = [1..<Suc ?n]" and ring: "ring r pid = drop ?j ?es"
    by (simp_all add: relay_inv_def keep_last_def)
  have len: "length ?es = ?n" using seqs by (rule map_seq_length)
  have ring_seqs: "map seq (ring r pid) = [Suc ?j..<Suc ?n]"
    using drop_map_upt [OF seqs] ring by simp
  have "?j \<le> k" using False ring len by simp
  from filter_seq_suffix [OF ring_seqs this]
  have "filter (\<lambda>e. k < seq e) (ring r pid) = drop (k - ?j) (drop ?j ?es)"
    by (simp add: ring)
  also have "\<dots> = drop (min k (length ?es)) ?es"
  proof (cases "k \<le> length ?es")
    case True
    with \<open>?j \<le> k\<close> show ?thesis by (simp add: min_def)
  next
    case False
    then show ?thesis by (simp add: min_def)
  qed
  finally have q: "filter (\<lambda>e. k < seq e) (ring r pid) = drop (min k (length ?es)) ?es" .
  let ?s = "\<lparr>sub_project = pid, taken = [], queue = filter (\<lambda>e. k < seq e) (ring r pid)\<rparr>"
  have new: "\<exists>j. j \<le> length (emitted r (sub_project ?s)) \<and>
      observed ?s = drop j (emitted r (sub_project ?s))"
    by (rule exI [of _ "min k (length ?es)"]) (simp add: observed_def q)
  from inv False new show ?thesis
    unfolding relay_inv_def subscribe_def
    by (auto simp del: drop_eq_Nil)
qed

lemma keep_last_append:
  "keep_last n (keep_last n xs @ [x]) = keep_last n (xs @ [x])"
  by (cases "length xs \<le> n") (auto simp: keep_last_def Suc_diff_le)

lemma relay_inv_publish:
  assumes inv: "relay_inv r"
  shows "relay_inv (publish pid content r)"
proof -
  let ?e = "\<lparr>project_id = pid, seq = Suc (last_seq r pid), payload = content\<rparr>"
  let ?r' = "publish pid content r"
  have fields: "last_seq ?r' = (last_seq r)(pid := Suc (last_seq r pid))"
    "ring ?r' = (ring r)(pid := keep_last (retain r) (ring r pid @ [?e]))"
    "emitted ?r' = (emitted r)(pid := emitted r pid @ [?e])"
    "retain ?r' = retain r"
    "subscriptions ?r' = (\<lambda>sid. case subscriptions r sid of
        None \<Rightarrow> None | Some s \<Rightarrow> deliver_to (capacity r) ?e s)"
    by (simp_all add: publish_def Let_def)
  from inv have old: "map seq (emitted r q) = [1..<Suc (last_seq r q)]"
    "ring r q = keep_last (retain r) (emitted r q)"
    "\<forall>e \<in> set (emitted r q). project_id e = q" for q
    by (simp_all add: relay_inv_def)
  have projects: "map seq (emitted ?r' q) = [1..<Suc (last_seq ?r' q)] \<and>
      ring ?r' q = keep_last (retain ?r') (emitted ?r' q) \<and>
      (\<forall>e \<in> set (emitted ?r' q). project_id e = q)" for q
  proof (cases "q = pid")
    case True
    then show ?thesis using old [of pid] by (simp add: fields keep_last_append)
  next
    case False
    then show ?thesis using old [of q] by (simp add: fields)
  qed
  have subs: "\<exists>k. k \<le> length (emitted ?r' (sub_project s')) \<and>
      observed s' = drop k (emitted ?r' (sub_project s'))"
    if s': "subscriptions ?r' sid = Some s'" for sid s'
  proof -
    from s' obtain s where s: "subscriptions r sid = Some s"
      and d: "deliver_to (capacity r) ?e s = Some s'"
      by (auto simp: fields split: option.splits)
    from inv have "\<forall>sid s. subscriptions r sid = Some s \<longrightarrow>
        (\<exists>k. k \<le> length (emitted r (sub_project s)) \<and>
             observed s = drop k (emitted r (sub_project s)))"
      by (simp add: relay_inv_def)
    with s obtain k where k: "k \<le> length (emitted r (sub_project s))"
      "observed s = drop k (emitted r (sub_project s))"
      by blast
    show ?thesis
    proof (cases "sub_project s = pid")
      case True
      with d have "s' = s\<lparr>queue := queue s @ [?e]\<rparr>"
        by (simp add: deliver_to_def split: if_splits)
      then have "observed s' = observed s @ [?e]" "sub_project s' = pid"
        using True by (simp_all add: observed_def)
      with k True show ?thesis
        by (intro exI [of _ k]) (simp add: fields)
    next
      case False
      with d have "s' = s" by (simp add: deliver_to_def)
      with k False show ?thesis
        by (intro exI [of _ k]) (simp add: fields)
    qed
  qed
  from projects subs show ?thesis unfolding relay_inv_def by blast
qed

lemma relay_inv_step: "relay_inv r \<Longrightarrow> relay_inv (relay_step r op)"
  by (cases op)
    (simp_all add: relay_inv_publish relay_inv_subscribe relay_inv_unsubscribe
      relay_inv_take_next)

lemma relay_inv_foldl: "relay_inv r \<Longrightarrow> relay_inv (foldl relay_step r ops)"
  by (induction ops arbitrary: r) (simp_all add: relay_inv_step)

lemma relay_inv_run: "relay_inv (run_relay n c ops)"
  by (simp add: run_relay_def relay_inv_foldl relay_inv_new)

lemma relay_inv_observed:
  assumes "relay_inv r" "subscriptions r sid = Some s"
  shows "(\<exists>a. map seq (observed s) = [a..<Suc (last_seq r (sub_project s))]) \<and>
         (\<forall>e \<in> set (observed s). project_id e = sub_project s)"
proof -
  let ?es = "emitted r (sub_project s)"
  from assms(1) have "\<forall>sid s. subscriptions r sid = Some s \<longrightarrow>
      (\<exists>k. k \<le> length (emitted r (sub_project s)) \<and>
           observed s = drop k (emitted r (sub_project s)))"
    by (simp add: relay_inv_def)
  with assms(2) obtain k where k: "observed s = drop k ?es" by blast
  from assms(1) have seqs: "map seq ?es = [1..<Suc (last_seq r (sub_project s))]"
    and ids: "\<forall>e \<in> set ?es. project_id e = sub_project s"
    by (simp_all add: relay_inv_def)
  from drop_map_upt [OF seqs, of k] k
  have "map seq (observed s) = [Suc k..<Suc (last_seq r (sub_project s))]" by simp
  moreover from ids k have "\<forall>e \<in> set (observed s). project_id e = sub_project s"
    by (auto dest: in_set_dropD)
  ultimately show ?thesis by blast
qed

text \<open>
  Claim C5. After any series of relay operations, the events published for a project
  carry the sequence numbers 1, 2, 3, ... in the order of their publication, so no
  number is used twice; \<open>publish\<close> itself gives the new event the next number; and
  what a subscriber has observed since it subscribed are events of its project whose
  sequence numbers are consecutive and reach up to the last one assigned: strictly
  increasing, without a gap.
\<close>

theorem relay_sequence_numbers:
  "map seq (emitted (run_relay n c ops) pid) = [1..<Suc (last_seq (run_relay n c ops) pid)] \<and>
   emitted (publish pid content (run_relay n c ops)) pid =
     emitted (run_relay n c ops) pid @
       [\<lparr>project_id = pid, seq = Suc (last_seq (run_relay n c ops) pid), payload = content\<rparr>] \<and>
   (\<forall>sid s. subscriptions (run_relay n c ops) sid = Some s \<longrightarrow>
      (\<exists>a. map seq (observed s) = [a..<Suc (last_seq (run_relay n c ops) (sub_project s))]) \<and>
      (\<forall>e \<in> set (observed s). project_id e = sub_project s))"
proof (intro conjI allI impI)
  show "map seq (emitted (run_relay n c ops) pid) = [1..<Suc (last_seq (run_relay n c ops) pid)]"
    using relay_inv_run [of n c ops] by (simp add: relay_inv_def)
  show "emitted (publish pid content (run_relay n c ops)) pid =
     emitted (run_relay n c ops) pid @
       [\<lparr>project_id = pid, seq = Suc (last_seq (run_relay n c ops) pid), payload = content\<rparr>]"
    by (simp add: publish_def Let_def)
next
  fix sid s
  assume s: "subscriptions (run_relay n c ops) sid = Some s"
  from relay_inv_observed [OF relay_inv_run s]
  show "\<exists>a. map seq (observed s) = [a..<Suc (last_seq (run_relay n c ops) (sub_project s))]"
    and "\<forall>e \<in> set (observed s). project_id e = sub_project s"
    by blast+
qed

text \<open>
  A subscriber that joins after the first event and asks for a replay from 0 observes
  the events 1, 2 and 3.
\<close>

theorem relay_sequence_numbers_witness:
  "subscriptions
     (run_relay 2 2 [Publish 0 ''a'', Subscribe 5 0 0, Publish 0 ''b'', TakeNext 5, Publish 0 ''c''])
     5 =
   Some \<lparr>sub_project = 0,
         taken = [\<lparr>project_id = 0, seq = 1, payload = ''a''\<rparr>],
         queue = [\<lparr>project_id = 0, seq = 2, payload = ''b''\<rparr>,
                  \<lparr>project_id = 0, seq = 3, payload = ''c''\<rparr>]\<rparr> \<and>
   (\<exists>a. [1, 2, 3] = [a..<Suc 3])"
proof -
  let ?ops = "[Publish 0 ''a'', Subscribe 5 0 0, Publish 0 ''b'', TakeNext 5, Publish 0 ''c'']"
  let ?s = "\<lparr>sub_project = 0,
         taken = [\<lparr>project_id = 0, seq = 1, payload = ''a''\<rparr>],
         queue = [\<lparr>project_id = 0, seq = 2, payload = ''b''\<rparr>,
                  \<lparr>project_id = 0, seq = 3, payload = ''c''\<rparr>]\<rparr>"
  have run: "subscriptions (run_relay 2 2 ?ops) 5 = Some ?s"
    by (simp add: run_relay_def new_relay_def publish_def subscribe_def take_next_def
        deliver_to_def keep_last_def Let_def)
  have last: "last_seq (run_relay 2 2 ?ops) 0 = 3"
    by (simp add: run_relay_def new_relay_def publish_def subscribe_def take_next_def
        deliver_to_def keep_last_def Let_def)
  from relay_sequence_numbers [of 2 2 ?ops 0 "''d''"] run
  have "\<exists>a. map seq (observed ?s) = [a..<Suc (last_seq (run_relay 2 2 ?ops) (sub_project ?s))]"
    by blast
  then have "\<exists>a. [1, 2, 3] = [a..<Suc 3]"
    by (simp add: observed_def last)
  with run show ?thesis by blast
qed

end
